theory Spec2Isabelle
  imports Complex_Main "HOL-Library.Sublist" "HOL-Library.Word"
begin

section \<open>Errors and strings\<close>

text \<open>
  Go's \<open>error\<close> values, as far as the retry package and the Consul client build and
  inspect them.  \<open>Err s\<close> is an error without a cause whose \<open>Error()\<close> text is
  \<open>s\<close> (\<open>errors.New\<close>, \<open>fmt.Errorf\<close> without \<open>%w\<close>, an error handed back by an
  operation).  \<open>Wrap c m\<close> is \<open>errors.Wrap(c, m)\<close> of \<open>github.com/pkg/errors\<close>:
  its cause is \<open>c\<close> and its text is \<open>m\<close>, a colon, a space and the text of \<open>c\<close>.
  A \<open>nil\<close> error is \<open>None\<close> of \<open>error option\<close>.
\<close>

datatype error = Err string | Wrap error string

fun Error :: "error \<Rightarrow> string" where
  "Error (Err s) = s"
| "Error (Wrap c m) = m @ '': '' @ Error c"

text \<open>The messages along the cause chain, outermost first.\<close>

fun chain :: "error \<Rightarrow> string list" where
  "chain (Err s) = [s]"
| "chain (Wrap c m) = m # chain c"

text \<open>\<open>strings.Contains(s, substr)\<close>: \<open>substr\<close> occurs in \<open>s\<close> as a contiguous run.\<close>

fun Contains :: "string \<Rightarrow> string \<Rightarrow> bool" where
  "Contains [] substr = (substr = [])"
| "Contains (c # cs) substr = (prefix substr (c # cs) \<or> Contains cs substr)"

section \<open>Floating point\<close>

text \<open>
  \<open>WaitTime\<close> computes in \<open>float64\<close>.  A \<open>float64\<close> is a finite number, an
  infinity or a NaN; the finite ones are the reals that binary64 represents (53
  significant bits, exponents from \<open>-1022\<close> to \<open>1023\<close>, subnormals below).  The two
  zeros are not told apart: nothing in \<open>WaitTime\<close> divides by zero or reads a sign
  bit.
\<close>

datatype float64 = Fin real | PInf | NInf | NaN

text \<open>Rounding a real to the nearest integer, ties to the even one.\<close>

definition rne :: "real \<Rightarrow> int" where
  "rne x =
     (let f = \<lfloor>x\<rfloor>; d = x - of_int f
      in if d < 1 / 2 then f
         else if 1 / 2 < d then f + 1
         else if even f then f else f + 1)"

text \<open>
  The binary exponent of a nonzero real, not below the exponent of the subnormals:
  the spacing of the \<open>float64\<close> values around \<open>x\<close> is \<open>2 powi (exponent x - 52)\<close>.
\<close>

definition exponent :: "real \<Rightarrow> int" where
  "exponent x = max (- 1022) \<lfloor>log 2 \<bar>x\<bar>\<rfloor>"

text \<open>
  IEEE 754 round-to-nearest-even into binary64: the result of every arithmetic
  operation on finite operands is the exact result rounded this way; a result that
  rounds to \<open>2 powi 1024\<close> or beyond overflows to an infinity.
\<close>

definition round64 :: "real \<Rightarrow> float64" where
  "round64 x =
     (if x = 0 then Fin 0
      else
        let q = 2 powi (exponent x - 52);
            y = of_int (rne (x / q)) * q
        in if 2 powi 1024 \<le> \<bar>y\<bar> then (if 0 < x then PInf else NInf) else Fin y)"

fun fneg :: "float64 \<Rightarrow> float64" where
  "fneg (Fin x) = Fin (- x)"
| "fneg PInf = NInf"
| "fneg NInf = PInf"
| "fneg NaN = NaN"

fun fadd :: "float64 \<Rightarrow> float64 \<Rightarrow> float64" where
  "fadd NaN _ = NaN"
| "fadd _ NaN = NaN"
| "fadd PInf NInf = NaN"
| "fadd NInf PInf = NaN"
| "fadd PInf _ = PInf"
| "fadd _ PInf = PInf"
| "fadd NInf _ = NInf"
| "fadd _ NInf = NInf"
| "fadd (Fin x) (Fin y) = round64 (x + y)"

definition fsub :: "float64 \<Rightarrow> float64 \<Rightarrow> float64" where
  "fsub a b = fadd a (fneg b)"

text \<open>The sign of a product or quotient with an infinite operand.\<close>

definition signed_inf :: "bool \<Rightarrow> float64" where
  "signed_inf positive = (if positive then PInf else NInf)"

fun fmul :: "float64 \<Rightarrow> float64 \<Rightarrow> float64" where
  "fmul NaN _ = NaN"
| "fmul _ NaN = NaN"
| "fmul PInf PInf = PInf"
| "fmul PInf NInf = NInf"
| "fmul NInf PInf = NInf"
| "fmul NInf NInf = PInf"
| "fmul PInf (Fin y) = (if y = 0 then NaN else signed_inf (0 < y))"
| "fmul NInf (Fin y) = (if y = 0 then NaN else signed_inf (y < 0))"
| "fmul (Fin x) PInf = (if x = 0 then NaN else signed_inf (0 < x))"
| "fmul (Fin x) NInf = (if x = 0 then NaN else signed_inf (x < 0))"
| "fmul (Fin x) (Fin y) = round64 (x * y)"

text \<open>Division; a zero divisor is taken as \<open>+0\<close>.\<close>

fun fdiv :: "float64 \<Rightarrow> float64 \<Rightarrow> float64" where
  "fdiv NaN _ = NaN"
| "fdiv _ NaN = NaN"
| "fdiv PInf (Fin y) = signed_inf (0 \<le> y)"
| "fdiv NInf (Fin y) = signed_inf (y < 0)"
| "fdiv (Fin x) (Fin y) =
     (if y = 0 then (if x = 0 then NaN else signed_inf (0 < x)) else round64 (x / y))"
| "fdiv (Fin x) _ = Fin 0"
| "fdiv _ _ = NaN"

text \<open>The comparison \<open>a > b\<close>: false as soon as an operand is a NaN.\<close>

fun fgt :: "float64 \<Rightarrow> float64 \<Rightarrow> bool" where
  "fgt NaN _ = False"
| "fgt _ NaN = False"
| "fgt (Fin x) (Fin y) = (y < x)"
| "fgt PInf PInf = False"
| "fgt PInf _ = True"
| "fgt NInf _ = False"
| "fgt (Fin x) PInf = False"
| "fgt (Fin x) NInf = True"

text \<open>The conversion \<open>float64(n)\<close> of an unsigned integer.\<close>

definition float64_of_nat :: "nat \<Rightarrow> float64" where
  "float64_of_nat n = round64 (of_nat n)"

text \<open>
  The conversion \<open>int(f)\<close> to Go's 64-bit \<open>int\<close>.  The fraction is discarded
  (truncation towards zero).  Where the result does not fit, and for infinities and
  NaN, the language leaves the value to the implementation: \<open>unrep f\<close> is the 64-bit
  pattern the platform produces for \<open>f\<close>, read as a signed number.
\<close>

definition truncation :: "real \<Rightarrow> int" where
  "truncation x = (if 0 \<le> x then \<lfloor>x\<rfloor> else \<lceil>x\<rceil>)"

definition to_int :: "(float64 \<Rightarrow> 64 word) \<Rightarrow> float64 \<Rightarrow> int" where
  "to_int unrep f =
     (case f of
        Fin x \<Rightarrow>
          if - (2 ^ 63) \<le> truncation x \<and> truncation x < 2 ^ 63 then truncation x
          else sint (unrep f)
      | _ \<Rightarrow> sint (unrep f))"

text \<open>
  On amd64 the conversion is the instruction \<open>CVTTSD2SQ\<close>, which answers every
  operand it cannot convert with the pattern \<open>0x8000000000000000\<close>.
\<close>

definition amd64 :: "float64 \<Rightarrow> 64 word" where
  "amd64 f = 0x8000000000000000"

text \<open>
  \<open>math.Exp2\<close> of Go's standard library.  Its special cases: a NaN and \<open>+Inf\<close> are
  returned as they are, \<open>-Inf\<close> gives \<open>0\<close>, an argument above the constant
  \<open>Overflow = 1.0239999999999999e+03\<close> (the \<open>float64\<close> just below \<open>1024\<close>) gives
  \<open>+Inf\<close>, one below \<open>Underflow = -1.0740e+03\<close> gives \<open>0\<close>.  Otherwise the result is
  the power of two, which for an integral argument \<open>k\<close> is computed exactly
  (\<open>Ldexp(1, k)\<close>); \<open>WaitTime\<close> passes integral arguments only.
\<close>

definition Exp2_Overflow :: real where
  "Exp2_Overflow = 1024 - 1 / 2 ^ 43"

definition Exp2_Underflow :: real where
  "Exp2_Underflow = - 1074"

fun Exp2 :: "float64 \<Rightarrow> float64" where
  "Exp2 NaN = NaN"
| "Exp2 PInf = PInf"
| "Exp2 NInf = Fin 0"
| "Exp2 (Fin x) =
     (if Exp2_Overflow < x then PInf
      else if x < Exp2_Underflow then Fin 0
      else round64 (2 powr x))"

section \<open>The retry package\<close>

text \<open>
  The state of a \<open>*rand.Rand\<close>: the numbers its successive calls of \<open>Float64\<close> will
  return.  \<open>Float64\<close> hands out the first and leaves the rest.
\<close>

type_synonym rand = "nat \<Rightarrow> real"

definition Float64 :: "rand \<Rightarrow> float64 \<times> rand" where
  "Float64 random = (Fin (random 0), \<lambda>n. random (Suc n))"

text \<open>\<open>maxWaitTime = 15 * float64(time.Minute)\<close>, a constant: 15 minutes in nanoseconds.\<close>

definition maxWaitTime :: float64 where
  "maxWaitTime = Fin 900000000000"

text \<open>\<open>float64(time.Second)\<close>.\<close>

definition Second :: float64 where
  "Second = Fin 1000000000"

text \<open>
  \<open>WaitTime\<close>, statement by statement.  The result is the wait in nanoseconds and
  the state of the random source after the one draw.
\<close>

definition WaitTime :: "(float64 \<Rightarrow> 64 word) \<Rightarrow> nat \<Rightarrow> rand \<Rightarrow> int \<times> rand" where
  "WaitTime unrep attempt random =
     (let a = float64_of_nat attempt;
          baseTimeSeconds = Exp2 a;
          nextTimeSeconds = Exp2 (fadd a (Fin 1));
          delayRange = fdiv (fsub nextTimeSeconds baseTimeSeconds) (Fin 2)
      in case Float64 random of
           (u, random') \<Rightarrow>
             let delay = fmul u delayRange;
                 total = fmul (fadd baseTimeSeconds delay) Second
             in if fgt total maxWaitTime then (to_int unrep maxWaitTime, random')
                else (to_int unrep total, random'))"

text \<open>The \<open>Retry\<close> struct (its logger left out: logging changes no result).\<close>

record Retry =
  maxRetry :: int
  random :: rand
  testMode :: bool

text \<open>
  \<open>NewRetry\<close> and \<open>NewTestRetry\<close>.  \<open>source seed\<close> stands for
  \<open>rand.New(rand.NewSource(seed))\<close>.
\<close>

definition NewRetry :: "(int \<Rightarrow> rand) \<Rightarrow> int \<Rightarrow> int \<Rightarrow> Retry" where
  "NewRetry source maxRetry' seed =
     \<lparr>maxRetry = maxRetry', random = source seed, testMode = False\<rparr>"

definition NewTestRetry :: "(int \<Rightarrow> rand) \<Rightarrow> int \<Rightarrow> Retry" where
  "NewTestRetry source maxRetry' = (NewRetry source maxRetry' 1)\<lparr>testMode := True\<rparr>"

text \<open>The method \<open>waitTime\<close>; the random source is shared, so its new state is kept.\<close>

definition waitTime :: "(float64 \<Rightarrow> 64 word) \<Rightarrow> Retry \<Rightarrow> nat \<Rightarrow> int \<times> Retry" where
  "waitTime unrep r attempt =
     (if testMode r then (1, r)
      else case WaitTime unrep attempt (random r) of
             (wait, random') \<Rightarrow> (wait, r\<lparr>random := random'\<rparr>))"

text \<open>
  The \<open>%d\<close> verb of \<open>fmt\<close> on an unsigned number: its decimal digits.
\<close>

definition digit :: "nat \<Rightarrow> char" where
  "digit d = ''0123456789'' ! d"

function show_nat :: "nat \<Rightarrow> string" where
  "show_nat n = (if n < 10 then [digit n] else show_nat (n div 10) @ [digit (n mod 10)])"
  by pat_completeness auto
termination
  by (relation "measure id") auto

text \<open>
  \<open>fmt.Errorf("retry attempt #%d failed '%s'", attempt, err)\<close>: the \<open>%s\<close> verb
  prints \<open>err.Error()\<close>, and the new error has no cause.
\<close>

definition attempt_failed :: "nat \<Rightarrow> error \<Rightarrow> error" where
  "attempt_failed attempt err =
     Err (''retry attempt #'' @ show_nat attempt @ '' failed '' @ [CHR 0x27] @ Error err @ [CHR 0x27])"

text \<open>
  The context, as far as \<open>Do\<close> reads it.  \<open>ctx_done ctx i\<close> tells whether the
  \<open>select\<close> of loop round \<open>i\<close> (counted from 0) receives from \<open>ctx.Done()\<close>; otherwise
  it receives the tick, which a ticker with a positive interval sends in the end.
  \<open>ctx_err\<close> is what \<open>ctx.Err()\<close> returns then, an error that is not nil.
\<close>

record Context =
  ctx_done :: "nat \<Rightarrow> bool"
  ctx_err :: error

text \<open>
  How a call ends: it returns, or it panics.  A call that does neither within the
  rounds it is given is \<open>None\<close> of the option around it.
\<close>

datatype 'a outcome = Returns 'a | Panics

text \<open>
  What \<open>Do\<close> leaves behind when it returns: the error, the state of the caller's
  variables that the operation writes, the retry handler with its random source
  advanced, the number of times the operation was invoked, and the intervals of the
  tickers created.
\<close>

record 's finish =
  result :: "error option"
  user :: 's
  handler :: Retry
  invocations :: nat
  tickers :: "int list"

text \<open>
  The \<open>for\<close> loop of \<open>Do\<close>, one round per \<open>select\<close>.  The operation \<open>f\<close> is a
  closure: it reads and writes variables of its caller, the state \<open>'s\<close>.  A round
  either receives from \<open>ctx.Done()\<close> and returns \<open>ctx.Err()\<close>, or receives the tick,
  counts the attempt, invokes the operation, wraps and accumulates its error, computes
  the next wait and creates the next ticker; \<open>time.NewTicker\<close> panics on an interval
  that is not positive.  Only then is the attempt counter compared with \<open>maxRetry\<close>.
  The counter is a \<open>uint\<close> in the source and a natural number here (the loop is far
  from \<open>2 ^ 63\<close> rounds, where \<open>int(attempt)\<close> would wrap).  The first argument bounds
  the number of rounds: with none left the result is \<open>None\<close>, the loop still running.
\<close>

fun retry_loop ::
  "nat \<Rightarrow> (float64 \<Rightarrow> 64 word) \<Rightarrow> Retry \<Rightarrow> Context \<Rightarrow> ('s \<Rightarrow> error option \<times> 's) \<Rightarrow>
   nat \<Rightarrow> error option \<Rightarrow> 's \<Rightarrow> int list \<Rightarrow> 's finish outcome option" where
  "retry_loop 0 unrep r ctx f attempt errs s ws = None"
| "retry_loop (Suc fuel) unrep r ctx f attempt errs s ws =
     (if ctx_done ctx attempt then
        Some (Returns \<lparr>result = Some (ctx_err ctx), user = s, handler = r,
                       invocations = Suc attempt, tickers = ws\<rparr>)
      else
        case f s of
          (None, s') \<Rightarrow>
            Some (Returns \<lparr>result = None, user = s', handler = r,
                           invocations = Suc (Suc attempt), tickers = ws\<rparr>)
        | (Some e, s') \<Rightarrow>
            let err = attempt_failed (Suc attempt) e;
                errs' = (case errs of None \<Rightarrow> err | Some es \<Rightarrow> Wrap es (Error err))
            in case waitTime unrep r (Suc attempt) of
                 (wait, r') \<Rightarrow>
                   if wait \<le> 0 then Some Panics
                   else if 0 \<le> maxRetry r \<and> maxRetry r \<le> int (Suc attempt) then
                     Some (Returns \<lparr>result = Some errs', user = s', handler = r',
                                    invocations = Suc (Suc attempt), tickers = ws @ [wait]\<rparr>)
                   else retry_loop fuel unrep r' ctx f (Suc attempt) (Some errs') s' (ws @ [wait]))"

text \<open>\<open>Do\<close>: the first invocation, the first ticker, then the loop.\<close>

definition Do ::
  "nat \<Rightarrow> (float64 \<Rightarrow> 64 word) \<Rightarrow> Retry \<Rightarrow> Context \<Rightarrow> ('s \<Rightarrow> error option \<times> 's) \<Rightarrow> 's \<Rightarrow>
   's finish outcome option" where
  "Do fuel unrep r ctx f s =
     (case f s of
        (err, s') \<Rightarrow>
          if err = None \<or> maxRetry r = 0 then
            Some (Returns \<lparr>result = err, user = s', handler = r, invocations = 1, tickers = []\<rparr>)
          else
            case waitTime unrep r 0 of
              (wait, r') \<Rightarrow>
                if wait \<le> 0 then Some Panics
                else retry_loop fuel unrep r' ctx f 0 None s' [wait])"

text \<open>
  The run of an operation from a state: the state before its \<open>n\<close>-th invocation
  (counted from 0) and what that invocation returns.
\<close>

fun state_before :: "('s \<Rightarrow> error option \<times> 's) \<Rightarrow> 's \<Rightarrow> nat \<Rightarrow> 's" where
  "state_before f s 0 = s"
| "state_before f s (Suc n) = state_before f (snd (f s)) n"

definition returned :: "('s \<Rightarrow> error option \<times> 's) \<Rightarrow> 's \<Rightarrow> nat \<Rightarrow> error option" where
  "returned f s n = fst (f (state_before f s n))"

section \<open>The Consul client: SKU parsing\<close>

text \<open>
  \<open>Self\<close> is \<open>map[string]map[string]interface{}\<close>.  The values of the inner map are
  decoded JSON; \<open>iface\<close> keeps the dynamic types a type assertion can tell apart.
  \<open>INil\<close> is the nil interface, which is also what indexing a map at a missing key
  (or indexing a nil map) yields.
\<close>

datatype iface = INil | IString string | IBool bool | INumber int | IOther

type_synonym Self = "string \<rightharpoonup> (string \<rightharpoonup> iface)"

text \<open>\<open>info[k1][k2]\<close>: the zero value where a key is missing; never a panic.\<close>

definition index2 :: "Self \<Rightarrow> string \<Rightarrow> string \<Rightarrow> iface" where
  "index2 info k1 k2 =
     (case info k1 of
        None \<Rightarrow> INil
      | Some inner \<Rightarrow> (case inner k2 of None \<Rightarrow> INil | Some x \<Rightarrow> x))"

text \<open>The comma-ok type assertion \<open>x.(string)\<close>.\<close>

fun assert_string :: "iface \<Rightarrow> string \<times> bool" where
  "assert_string (IString s) = (s, True)"
| "assert_string _ = ('''', False)"

definition ConsulEnterpriseSKU :: string where
  "ConsulEnterpriseSKU = ''ent''"

definition ConsulOSSSKU :: string where
  "ConsulOSSSKU = ''oss''"

text \<open>
  \<open>parseSKU\<close>.  \<open>version.NewVersion\<close> and \<open>Version.Metadata\<close> belong to the library
  \<open>github.com/hashicorp/go-version\<close>, which is not part of the repository; they enter
  as the parameter \<open>metadataOf\<close>: \<open>metadataOf v = None\<close> when \<open>NewVersion(v)\<close> returns
  an error, and \<open>Some md\<close> when it returns a version whose \<open>Metadata()\<close> is \<open>md\<close>.
\<close>

definition parseSKU :: "(string \<Rightarrow> string option) \<Rightarrow> Self \<Rightarrow> string \<times> bool" where
  "parseSKU metadataOf info =
     (case assert_string (index2 info ''Config'' ''Version'') of
        (v, ok) \<Rightarrow>
          if \<not> ok then ('''', ok)
          else (case metadataOf v of
                  None \<Rightarrow> ('''', False)
                | Some md \<Rightarrow>
                    if Contains md ConsulEnterpriseSKU then (ConsulEnterpriseSKU, True)
                    else (ConsulOSSSKU, True)))"

section \<open>The Consul client: requests under retry\<close>

text \<open>
  A \<open>ConsulClient\<close>: its retry handler, and the Consul API behind the embedded
  \<open>*consulapi.Client\<close>.  The server is outside the program: \<open>LicenseGetSigned q k\<close>
  and \<open>AgentSelf k\<close> are what request number \<open>k\<close> (counted from 0) of the call at
  hand gets back.
\<close>

record 'q ConsulClient =
  retry :: Retry
  LicenseGetSigned :: "'q \<Rightarrow> nat \<Rightarrow> string \<times> error option"
  AgentSelf :: "nat \<Rightarrow> Self \<times> error option"

text \<open>
  The variables of \<open>GetLicense\<close> that its closure writes (\<open>license\<close>, \<open>err\<close>), and the
  number of requests sent so far.
\<close>

record license_vars =
  license :: string
  license_err :: "error option"
  license_requests :: nat

text \<open>The closure handed to \<open>Do\<close> by \<open>GetLicense\<close>.\<close>

definition license_op ::
  "(nat \<Rightarrow> string \<times> error option) \<Rightarrow> license_vars \<Rightarrow> error option \<times> license_vars" where
  "license_op api v =
     (case api (license_requests v) of
        (l, e) \<Rightarrow>
          if e \<noteq> None then
            (e, \<lparr>license = [], license_err = e, license_requests = Suc (license_requests v)\<rparr>)
          else
            (None, \<lparr>license = l, license_err = e, license_requests = Suc (license_requests v)\<rparr>))"

text \<open>\<open>GetLicense\<close>: the pair it returns, and the client's retry handler afterwards.\<close>

definition GetLicense ::
  "nat \<Rightarrow> (float64 \<Rightarrow> 64 word) \<Rightarrow> 'q ConsulClient \<Rightarrow> Context \<Rightarrow> 'q \<Rightarrow>
   ((string \<times> error option) \<times> Retry) outcome option" where
  "GetLicense fuel unrep c ctx q =
     (case Do fuel unrep (retry c) ctx (license_op (LicenseGetSigned c q))
             \<lparr>license = [], license_err = None, license_requests = 0\<rparr> of
        None \<Rightarrow> None
      | Some Panics \<Rightarrow> Some Panics
      | Some (Returns fin) \<Rightarrow>
          Some (Returns ((license (user fin), result fin), handler fin)))"

text \<open>The variables of \<open>GetSKU\<close> that its closure writes; a nil map is the empty map.\<close>

record sku_vars =
  info :: Self
  sku_err :: "error option"
  sku_requests :: nat



section \<open>The controller: one render-and-apply attempt\<close>

text \<open>
  The task, the driver and the event as the specification's data model gives them.
  A driver is what its methods answer: \<open>RenderTemplate\<close> its pair, \<open>ApplyTask k\<close> the
  error of its invocation number \<open>k\<close> (counted from 0).
\<close>

datatype condition = Dynamic "string list" | Scheduled string | NoCondition

record Task =
  name :: string
  enabled :: bool
  condition :: condition

fun is_scheduled :: "condition \<Rightarrow> bool" where
  "is_scheduled (Scheduled cron) = True"
| "is_scheduled _ = False"

record Driver =
  task :: Task
  RenderTemplate :: "bool \<times> error option"
  ApplyTask :: "nat \<Rightarrow> error option"

record Event =
  task_name :: string
  start_time :: nat
  end_time :: nat
  success :: bool
  event_error :: "string option"

text \<open>The driver methods a call of \<open>checkApply\<close> invokes, in order.\<close>

datatype driver_call = CallTask | CallRenderTemplate | CallApplyTask

text \<open>
  What a call of \<open>checkApply\<close> returns and does: the pair it returns, the events it
  records in the event store, and the driver methods it calls.
\<close>

record applied =
  rendered :: bool
  err :: "error option"
  events :: "Event list"
  calls :: "driver_call list"

text \<open>The operation that \<open>checkApply\<close> runs, under retry or once: \<open>driver.ApplyTask\<close>.\<close>

definition apply_op :: "Driver \<Rightarrow> nat \<Rightarrow> error option \<times> nat" where
  "apply_op d k = (ApplyTask d k, Suc k)"

text \<open>
  Modelled from the spec: \<open>checkApply\<close> of the controller, whose source file
  (the controller's \<open>readwrite.go\<close>) is not among the sources, only its test is.  The
  definition follows section 4.4.3 of the specification step by step: (1) a task that
  is not enabled returns \<open>(false, nil)\<close> and records nothing; (2) the start time is
  read and \<open>RenderTemplate\<close> is called; on an error an event with \<open>success = false\<close>
  and the error's message is recorded and \<open>(false, err)\<close> returned; when nothing
  was rendered, once-mode for a scheduled task returns \<open>(false, nil)\<close> with no event,
  and otherwise an event with \<open>success = true\<close> is recorded and \<open>(false, nil)\<close>
  returned; (3) \<open>ApplyTask\<close> is called, under \<open>Do\<close> of the controller's retry
  handler \<open>rt\<close> when \<open>retry\<close> is set; (4) the end time is read, the event recorded and
  \<open>(true, err)\<close> returned.  \<open>start\<close> and \<open>stop\<close> are the two readings of the clock.
\<close>

definition checkApply ::
  "nat \<Rightarrow> (float64 \<Rightarrow> 64 word) \<Rightarrow> Retry \<Rightarrow> nat \<Rightarrow> nat \<Rightarrow> Context \<Rightarrow> Driver \<Rightarrow> bool \<Rightarrow> bool \<Rightarrow>
   applied outcome option" where
  "checkApply fuel unrep rt start stop ctx d retry' once =
     (let t = task d in
      if \<not> enabled t then
        Some (Returns \<lparr>rendered = False, err = None, events = [], calls = [CallTask]\<rparr>)
      else
        case RenderTemplate d of
          (r, Some e) \<Rightarrow>
            Some (Returns
              \<lparr>rendered = False, err = Some e,
               events = [\<lparr>task_name = name t, start_time = start, end_time = stop,
                          success = False, event_error = Some (Error e)\<rparr>],
               calls = [CallTask, CallRenderTemplate]\<rparr>)
        | (False, None) \<Rightarrow>
            if once \<and> is_scheduled (condition t) then
              Some (Returns \<lparr>rendered = False, err = None, events = [],
                             calls = [CallTask, CallRenderTemplate]\<rparr>)
            else
              Some (Returns
                \<lparr>rendered = False, err = None,
                 events = [\<lparr>task_name = name t, start_time = start, end_time = stop,
                            success = True, event_error = None\<rparr>],
                 calls = [CallTask, CallRenderTemplate]\<rparr>)
        | (True, None) \<Rightarrow>
            (case (if retry' then Do fuel unrep rt ctx (apply_op d) 0
                   else Some (Returns \<lparr>result = ApplyTask d 0, user = 1, handler = rt,
                                         invocations = 1, tickers = []\<rparr>)) of
               None \<Rightarrow> None
             | Some Panics \<Rightarrow> Some Panics
             | Some (Returns fin) \<Rightarrow>
                 Some (Returns
                   \<lparr>rendered = True, err = result fin,
                    events = [\<lparr>task_name = name t, start_time = start, end_time = stop,
                               success = (result fin = None),
                               event_error = map_option Error (result fin)\<rparr>],
                    calls = [CallTask, CallRenderTemplate] @
                            replicate (invocations fin) CallApplyTask\<rparr>)))"

section \<open>Notions used in the proofs\<close>

text \<open>
  The value \<open>round64\<close> rounds to before the overflow test, and the reals that are
  \<open>float64\<close> values: an integer of fewer than 54 bits times a power of two in the
  exponent range.
\<close>

definition rval :: "real \<Rightarrow> real" where
  "rval x = (if x = 0 then 0 else of_int (rne (x / 2 powi (exponent x - 52))) * 2 powi (exponent x - 52))"

definition representable :: "real \<Rightarrow> bool" where
  "representable x \<longleftrightarrow> (\<exists>m k. x = of_int m * 2 powi k \<and> \<bar>m\<bar> < 2 ^ 53 \<and> - 1074 \<le> k \<and> k \<le> 971)"

text \<open>
  The retry attempts of a run accumulated as \<open>Do\<close> does it: \<open>accumulate errs a es\<close> is
  the accumulated error after the attempts \<open>a + 1, a + 2, ...\<close> have failed with the
  errors \<open>es\<close>, starting from \<open>errs\<close>.  \<open>attempt_text\<close> is the text of one attempt's
  error.
\<close>

fun accumulate :: "error option \<Rightarrow> nat \<Rightarrow> error list \<Rightarrow> error option" where
  "accumulate errs a [] = errs"
| "accumulate errs a (e # es) =
     accumulate
       (Some (case errs of
                None \<Rightarrow> attempt_failed (Suc a) e
              | Some x \<Rightarrow> Wrap x (Error (attempt_failed (Suc a) e))))
       (Suc a) es"

definition attempt_text :: "nat \<Rightarrow> error \<Rightarrow> string" where
  "attempt_text N e =
     ''retry attempt #'' @ show_nat N @ '' failed '' @ [CHR 0x27] @ Error e @ [CHR 0x27]"

text \<open>
  \<open>waits_ok r n\<close>: every wait that the handler \<open>r\<close> computes for an attempt up to \<open>n\<close>
  is a positive interval, because \<open>r\<close> is in test mode or because \<open>n\<close> is at most 1022
  and every draw of its random source lies in \<open>[0, 1)\<close>, as \<open>Float64\<close> promises.
  \<open>always_fails f\<close>: every invocation of the operation returns an error.
\<close>

definition waits_ok :: "Retry \<Rightarrow> nat \<Rightarrow> bool" where
  "waits_ok r n \<longleftrightarrow> testMode r \<or> (n \<le> 1022 \<and> (\<forall>i. 0 \<le> random r i \<and> random r i < 1))"

definition always_fails :: "('s \<Rightarrow> error option \<times> 's) \<Rightarrow> bool" where
  "always_fails f \<longleftrightarrow> (\<forall>s. fst (f s) \<noteq> None)"

section \<open>Inputs for the examples\<close>

text \<open>A random source whose every draw is \<open>u\<close>.\<close>

definition steady :: "real \<Rightarrow> rand" where
  "steady u n = u"

text \<open>A source of random sources that ignores its seed.\<close>

definition steady_source :: "int \<Rightarrow> rand" where
  "steady_source seed = steady (1 / 2)"

text \<open>The handler of the tests: \<open>NewTestRetry\<close>, whose every wait is one nanosecond.\<close>

definition test_retry :: "int \<Rightarrow> Retry" where
  "test_retry n = NewTestRetry steady_source n"

text \<open>A context that is never done, and one that is done from round \<open>k\<close> on.\<close>

definition never_done :: Context where
  "never_done = \<lparr>ctx_done = (\<lambda>i. False), ctx_err = Err ''context canceled''\<rparr>"

definition done_from :: "nat \<Rightarrow> Context" where
  "done_from k = \<lparr>ctx_done = (\<lambda>i. k \<le> i), ctx_err = Err ''context canceled''\<rparr>"

text \<open>
  Operations on a counter of their invocations: one that fails with \<open>boom\<close> every
  time, and one whose invocation \<open>k\<close> fails with the message \<open>e\<close> followed by \<open>k\<close>.
\<close>

definition always_boom :: "nat \<Rightarrow> error option \<times> nat" where
  "always_boom k = (Some (Err ''boom''), Suc k)"

definition numbered :: "nat \<Rightarrow> error option \<times> nat" where
  "numbered k = (Some (Err (''e'' @ show_nat k)), Suc k)"



text \<open>
  What \<open>version.NewVersion\<close> and \<open>Metadata\<close> answer on the version strings of the
  client's test \<open>TestSelf_SKU\<close>: the four well-formed ones with their metadata, and
  an error on every other string, \<open>***\<close> among them.
\<close>

definition test_versions :: "string \<Rightarrow> string option" where
  "test_versions v =
     (if v = ''v1.9.5'' then Some []
      else if v = ''v1.9.5-dev'' then Some []
      else if v = ''v1.9.5+ent'' then Some ''ent''
      else if v = ''v1.9.5+ent-dev'' then Some ''ent-dev''
      else None)"

text \<open>An agent's self-information whose \<open>Config.Version\<close> is \<open>x\<close>.\<close>

definition self_with :: "iface \<Rightarrow> Self" where
  "self_with x = [''Config'' \<mapsto> [''Version'' \<mapsto> x]]"

text \<open>
  Two clients that retry once: one whose server fails every request (handing back a
  stale license and some self-information beside the error), and one whose server
  fails the first request and answers the second.
\<close>

definition failing_client :: "unit ConsulClient" where
  "failing_client =
     \<lparr>retry = test_retry 1,
      LicenseGetSigned = (\<lambda>q k. (''stale'', Some (Err ''unavailable''))),
      AgentSelf = (\<lambda>k. (self_with (IString ''v1.9.5+ent''), Some (Err ''unavailable'')))\<rparr>"

definition recovering_client :: "iface \<Rightarrow> unit ConsulClient" where
  "recovering_client x =
     \<lparr>retry = test_retry 1,
      LicenseGetSigned = (\<lambda>q k. if k = 0 then ([], Some (Err ''unavailable'')) else (''signed'', None)),
      AgentSelf = (\<lambda>k. if k = 0 then (Map.empty, Some (Err ''unavailable'')) else (self_with x, None))\<rparr>"

text \<open>An enabled task whose template does not render.\<close>

definition unrendered :: "condition \<Rightarrow> Driver" where
  "unrendered cond =
     \<lparr>task = \<lparr>name = ''scheduled_task'', enabled = True, condition = cond\<rparr>,
      RenderTemplate = (False, None),
      ApplyTask = (\<lambda>k. None)\<rparr>"

section \<open>Rounding\<close>

lemma rne_upper: "real_of_int (rne x) \<le> x + 1 / 2"
  unfolding rne_def Let_def by (auto; linarith)

lemma rne_lower: "x - 1 / 2 \<le> real_of_int (rne x)"
  unfolding rne_def Let_def by (auto; linarith)

lemma rne_of_int [simp]: "rne (of_int n) = n"
  unfolding rne_def Let_def by simp

lemma rne_mono: "x \<le> y \<Longrightarrow> rne x \<le> rne y"
proof (rule ccontr)
  assume xy: "x \<le> y" and "\<not> rne x \<le> rne y"
  then have lt: "rne y + 1 \<le> rne x" by simp
  have "real_of_int (rne x) \<le> x + 1 / 2" by (rule rne_upper)
  moreover have "y - 1 / 2 \<le> real_of_int (rne y)" by (rule rne_lower)
  moreover from lt have "real_of_int (rne y) + 1 \<le> real_of_int (rne x)" by linarith
  ultimately have "x = y" and ux: "real_of_int (rne x) = x + 1 / 2" and ly: "real_of_int (rne y) = y - 1 / 2"
    using xy by linarith+
  from \<open>x = y\<close> have "rne x = rne y" by simp
  with lt show False by simp
qed

lemma exponent_upper: "x \<noteq> 0 \<Longrightarrow> \<bar>x\<bar> < 2 powi (exponent x + 1)"
proof -
  assume "x \<noteq> 0"
  then have pos: "0 < \<bar>x\<bar>" by simp
  define k where "k = \<lfloor>log 2 \<bar>x\<bar>\<rfloor>"
  have "\<bar>x\<bar> < 2 powr (real_of_int k + 1)"
    using floor_log_eq_powr_iff[OF pos, of 2 k] k_def by simp
  also have "\<dots> = 2 powi (k + 1)"
    using powr_real_of_int'[of 2 "k + 1"] by simp
  also have "\<dots> \<le> 2 powi (exponent x + 1)"
    unfolding exponent_def k_def by (intro power_int_increasing) auto
  finally show ?thesis .
qed

lemma exponent_lower: "x \<noteq> 0 \<Longrightarrow> exponent x = - 1022 \<or> 2 powi (exponent x) \<le> \<bar>x\<bar>"
proof -
  assume "x \<noteq> 0"
  then have pos: "0 < \<bar>x\<bar>" by simp
  define k where "k = \<lfloor>log 2 \<bar>x\<bar>\<rfloor>"
  have "2 powr (real_of_int k) \<le> \<bar>x\<bar>"
    using floor_log_eq_powr_iff[OF pos, of 2 k] k_def by simp
  then have "2 powi k \<le> \<bar>x\<bar>"
    using powr_real_of_int'[of 2 "k"] by simp
  then show ?thesis unfolding exponent_def k_def by (auto simp: max_def)
qed

lemma exponent_mono: "0 < x \<Longrightarrow> x \<le> y \<Longrightarrow> exponent x \<le> exponent y"
  unfolding exponent_def
  by (intro max.mono order_refl floor_mono) (simp add: log_le_cancel_iff)


lemma round64_rval:
  "round64 x = (if 2 powi 1024 \<le> \<bar>rval x\<bar> then (if 0 < x then PInf else NInf) else Fin (rval x))"
  by (simp add: round64_def rval_def Let_def)

lemma rval_nonneg: "0 \<le> x \<Longrightarrow> 0 \<le> rval x"
proof -
  assume "0 \<le> x"
  then have "0 \<le> x / 2 powi (exponent x - 52)" by simp
  then have "rne 0 \<le> rne (x / 2 powi (exponent x - 52))" by (rule rne_mono)
  then have "0 \<le> rne (x / 2 powi (exponent x - 52))" using rne_of_int[of 0] by simp
  then show ?thesis by (simp add: rval_def)
qed

lemma rval_upper: "0 < x \<Longrightarrow> rval x \<le> 2 powi (exponent x + 1)"
proof -
  assume pos: "0 < x"
  let ?q = "2 powi (exponent x - 52) :: real"
  have q: "0 < ?q" by simp
  have "x < 2 powi (exponent x + 1)" using exponent_upper[of x] pos by simp
  also have "\<dots> = 2 ^ 53 * ?q"
    by (simp add: power_int_diff power_int_add)
  finally have "x / ?q \<le> of_int (2 ^ 53)" using q by (simp add: field_simps)
  then have "rne (x / ?q) \<le> rne (of_int (2 ^ 53))" by (rule rne_mono)
  then have "rne (x / ?q) \<le> 2 ^ 53" by (simp only: rne_of_int)
  then have "real_of_int (rne (x / ?q)) \<le> real_of_int (2 ^ 53)" by (simp only: of_int_le_iff)
  then have "real_of_int (rne (x / ?q)) \<le> 2 ^ 53" by simp
  then have "real_of_int (rne (x / ?q)) * ?q \<le> 2 ^ 53 * ?q" using q by simp
  also have "2 ^ 53 * ?q = 2 powi (exponent x + 1)"
    by (simp add: power_int_diff power_int_add)
  finally show ?thesis using pos by (simp add: rval_def)
qed

lemma rval_lower: "0 < x \<Longrightarrow> 2 powi (exponent x) \<le> x \<Longrightarrow> 2 powi (exponent x) \<le> rval x"
proof -
  assume pos: "0 < x" and le: "2 powi (exponent x) \<le> x"
  let ?q = "2 powi (exponent x - 52) :: real"
  have q: "0 < ?q" by simp
  have eq: "2 powi (exponent x) = 2 ^ 52 * ?q"
    by (simp add: power_int_diff)
  with le have "of_int (2 ^ 52) \<le> x / ?q" using q by (simp add: field_simps)
  then have "rne (of_int (2 ^ 52)) \<le> rne (x / ?q)" by (rule rne_mono)
  then have "2 ^ 52 \<le> rne (x / ?q)" by (simp only: rne_of_int)
  then have "real_of_int (2 ^ 52) \<le> real_of_int (rne (x / ?q))" by (simp only: of_int_le_iff)
  then have "2 ^ 52 \<le> real_of_int (rne (x / ?q))" by simp
  then have "2 ^ 52 * ?q \<le> real_of_int (rne (x / ?q)) * ?q" using q by simp
  then show ?thesis using pos eq by (simp add: rval_def)
qed

lemma rval_mono: "0 \<le> x \<Longrightarrow> x \<le> y \<Longrightarrow> rval x \<le> rval y"
proof -
  assume x0: "0 \<le> x" and xy: "x \<le> y"
  show ?thesis
  proof (cases "x = 0")
    case True
    then show ?thesis using rval_nonneg[of y] x0 xy by (simp add: rval_def)
  next
    case False
    then have px: "0 < x" and py: "0 < y" using x0 xy by auto
    have ee: "exponent x \<le> exponent y" using exponent_mono[OF px xy] .
    show ?thesis
    proof (cases "exponent x = exponent y")
      case True
      let ?q = "2 powi (exponent x - 52) :: real"
      have "x / ?q \<le> y / ?q" using xy by (simp add: divide_right_mono)
      then have "rne (x / ?q) \<le> rne (y / ?q)" by (rule rne_mono)
      then have "real_of_int (rne (x / ?q)) * ?q \<le> real_of_int (rne (y / ?q)) * ?q"
        by (simp add: mult_right_mono)
      then show ?thesis using px py True by (simp add: rval_def)
    next
      case False
      then have lt: "exponent x + 1 \<le> exponent y" using ee by simp
      then have "exponent y \<noteq> - 1022" by (simp add: exponent_def)
      then have "2 powi (exponent y) \<le> y" using exponent_lower[of y] py by simp
      then have "2 powi (exponent y) \<le> rval y" using rval_lower[OF py] by simp
      moreover have "rval x \<le> 2 powi (exponent x + 1)" using rval_upper[OF px] .
      moreover have "(2::real) powi (exponent x + 1) \<le> 2 powi (exponent y)"
        using lt by (intro power_int_increasing) auto
      ultimately show ?thesis by linarith
    qed
  qed
qed

lemma rval_representable: "representable x \<Longrightarrow> rval x = x"
proof (cases "x = 0")
  case True
  then show ?thesis by (simp add: rval_def)
next
  case False
  assume "representable x"
  then obtain m k where x: "x = of_int m * 2 powi k" and m: "\<bar>m\<bar> < 2 ^ 53"
    and k: "- 1074 \<le> k" "k \<le> 971"
    unfolding representable_def by blast
  let ?e = "exponent x"
  have ek: "?e \<le> k + 52"
  proof (cases "?e = - 1022")
    case True
    then show ?thesis using k by simp
  next
    case False
    then have "2 powi ?e \<le> \<bar>x\<bar>" using exponent_lower[of x] \<open>x \<noteq> 0\<close> by simp
    also have "\<bar>x\<bar> = of_int \<bar>m\<bar> * 2 powi k" by (simp add: x abs_mult power_int_abs)
    also have "\<dots> < 2 ^ 53 * 2 powi k"
    proof -
      have "real_of_int \<bar>m\<bar> < real_of_int (2 ^ 53)" using m by (simp only: of_int_less_iff)
      then have "real_of_int \<bar>m\<bar> < 2 ^ 53" by simp
      then show ?thesis by (simp add: mult_strict_right_mono)
    qed
    also have "\<dots> = 2 powi (k + 53)" by (simp add: power_int_add)
    finally have "(2::real) powi ?e < 2 powi (k + 53)" .
    then have "?e < k + 53"
      by (smt (verit) power_int_increasing)
    then show ?thesis by simp
  qed
  define j where "j = nat (k + 52 - ?e)"
  have kk: "k = (?e - 52) + int j" using ek by (simp add: j_def)
  have "x / 2 powi (?e - 52) = of_int m * 2 powi (int j)"
    by (subst x, subst kk) (simp add: power_int_add)
  also have "\<dots> = of_int (m * 2 ^ j)" by simp
  finally have "rne (x / 2 powi (?e - 52)) = m * 2 ^ j" by (simp only: rne_of_int)
  then have "rval x = of_int (m * 2 ^ j) * 2 powi (?e - 52)"
    using \<open>x \<noteq> 0\<close> by (simp add: rval_def)
  also have "\<dots> = of_int m * (2 powi (int j) * 2 powi (?e - 52))" by simp
  also have "2 powi (int j) * (2::real) powi (?e - 52) = 2 powi k"
    by (subst kk) (simp add: power_int_add)
  finally show ?thesis using x by simp
qed

lemma representable_bound: "representable x \<Longrightarrow> \<bar>x\<bar> < 2 powi 1024"
proof -
  assume "representable x"
  then obtain m k where x: "x = of_int m * 2 powi k" and m: "\<bar>m\<bar> < 2 ^ 53"
    and k: "- 1074 \<le> k" "k \<le> 971"
    unfolding representable_def by blast
  have "\<bar>x\<bar> = of_int \<bar>m\<bar> * 2 powi k" by (simp add: x abs_mult power_int_abs)
  also have "\<dots> < 2 ^ 53 * 2 powi k"
  proof -
    have "real_of_int \<bar>m\<bar> < real_of_int (2 ^ 53)" using m by (simp only: of_int_less_iff)
    then have "real_of_int \<bar>m\<bar> < 2 ^ 53" by simp
    then show ?thesis by (simp add: mult_strict_right_mono)
  qed
  also have "\<dots> = 2 powi (k + 53)" by (simp add: power_int_add)
  also have "\<dots> \<le> 2 powi 1024" using k by (intro power_int_increasing) auto
  finally show ?thesis .
qed

lemma round64_representable: "representable x \<Longrightarrow> round64 x = Fin x"
  using representable_bound[of x] by (simp add: round64_rval rval_representable)

lemma round64_between:
  assumes "representable lo" "representable hi" "0 \<le> lo" "lo \<le> x" "x \<le> hi"
  shows "\<exists>y. round64 x = Fin y \<and> lo \<le> y \<and> y \<le> hi"
proof -
  have a: "lo \<le> rval x" using rval_mono[of lo x] assms rval_representable[of lo] by simp
  have b: "rval x \<le> hi" using rval_mono[of x hi] assms rval_representable[of hi] by simp
  have "\<bar>rval x\<bar> < 2 powi 1024" using a b assms(3) representable_bound[OF assms(2)] by linarith
  then show ?thesis using a b by (simp add: round64_rval)
qed

lemma round64_at_least:
  assumes "representable lo" "0 < lo" "lo \<le> x"
  shows "round64 x = PInf \<or> (\<exists>y. round64 x = Fin y \<and> lo \<le> y)"
proof -
  have a: "lo \<le> rval x" using rval_mono[of lo x] assms rval_representable[of lo] by simp
  show ?thesis using a assms by (auto simp: round64_rval)
qed

section \<open>The wait time\<close>

lemma representable_of_nat: "n < 2 ^ 53 \<Longrightarrow> representable (real n)"
  unfolding representable_def
  apply (rule exI[of _ "int n"], rule exI[of _ 0])
  by simp

lemma representable_pow2: "n \<le> 1023 \<Longrightarrow> representable (2 ^ n)"
proof (cases "n \<le> 971")
  case True
  then show ?thesis
    unfolding representable_def
    by (intro exI[of _ 1] exI[of _ "int n"]) simp
next
  case False
  assume n: "n \<le> 1023"
  define j where "j = n - 971"
  have nj: "n = j + 971" and j: "j \<le> 52" using False n by (simp_all add: j_def)
  have "(2::int) ^ j < 2 ^ 53" using j by (intro power_strict_increasing) auto
  moreover have "(2::real) ^ n = of_int (2 ^ j) * 2 powi 971"
    by (simp add: nj power_add)
  ultimately show ?thesis
    unfolding representable_def
    by (intro exI[of _ "2 ^ j"] exI[of _ 971]) simp
qed

lemma float64_of_nat_small: "n < 2 ^ 53 \<Longrightarrow> float64_of_nat n = Fin (real n)"
  by (simp add: float64_of_nat_def round64_representable representable_of_nat)

lemma Exp2_nat: "n \<le> 1023 \<Longrightarrow> Exp2 (Fin (real n)) = Fin (2 ^ n)"
proof -
  assume n: "n \<le> 1023"
  have "real n \<le> 1023" using n by simp
  then have "\<not> Exp2_Overflow < real n" by (simp add: Exp2_Overflow_def)
  moreover have "\<not> real n < Exp2_Underflow" by (simp add: Exp2_Underflow_def)
  moreover have "2 powr real n = 2 ^ n" by (simp add: powr_realpow)
  ultimately show ?thesis using n by (simp add: round64_representable representable_pow2)
qed

lemma Exp2_large: "1024 \<le> x \<Longrightarrow> Exp2 (Fin x) = PInf"
  by (simp add: Exp2_Overflow_def)

lemma representable_1024: "representable 1024"
  using representable_of_nat[of 1024] by simp

lemma float64_of_nat_large:
  "1024 \<le> n \<Longrightarrow> float64_of_nat n = PInf \<or> (\<exists>y. float64_of_nat n = Fin y \<and> 1024 \<le> y)"
  unfolding float64_of_nat_def
  by (rule round64_at_least[OF representable_1024]) simp_all

lemma WaitTime_NaN:
  assumes "1024 \<le> attempt"
  shows "WaitTime unrep attempt rs = (sint (unrep NaN), \<lambda>n. rs (Suc n))"
proof -
  let ?a = "float64_of_nat attempt"
  have base: "Exp2 ?a = PInf"
    using float64_of_nat_large[OF assms] by (auto simp del: Exp2.simps simp: Exp2_large Exp2.simps(2))
  have "fadd ?a (Fin 1) = PInf \<or> (\<exists>y. fadd ?a (Fin 1) = Fin y \<and> 1024 \<le> y)"
  proof -
    from float64_of_nat_large[OF assms] show ?thesis
    proof
      assume "?a = PInf" then show ?thesis by simp
    next
      assume "\<exists>y. ?a = Fin y \<and> 1024 \<le> y"
      then obtain y where y: "?a = Fin y" "1024 \<le> y" by blast
      then have "1024 \<le> y + 1" by simp
      from round64_at_least[OF representable_1024 _ this] y show ?thesis by simp
    qed
  qed
  then have nxt: "Exp2 (fadd ?a (Fin 1)) = PInf"
    by (auto simp del: Exp2.simps simp: Exp2_large Exp2.simps(2))
  show ?thesis
    by (simp add: WaitTime_def Let_def base nxt fsub_def Float64_def to_int_def)
qed

lemma sint_amd64: "sint (amd64 f) = - 9223372036854775808"
  by (simp add: amd64_def)

text \<open>
  C3 (the delay cap).  The claim: for every attempt \<open>a\<close> with \<open>2 ^ a\<close> seconds at least
  900 seconds, \<open>WaitTime\<close> returns exactly \<open>900000000000\<close>.  The code does not:
  from attempt 1024 on, \<open>math.Exp2\<close> overflows to \<open>+Inf\<close> for both the base and the
  next time, their difference is a NaN, so is the total, the comparison with
  \<open>maxWaitTime\<close> is false, and what is returned is the conversion of a NaN to \<open>int\<close>,
  whatever the random source draws.
\<close>

theorem WaitTime_beyond_1023:
  "1024 \<le> attempt \<Longrightarrow> fst (WaitTime unrep attempt rs) = sint (unrep NaN)"
  by (simp add: WaitTime_NaN)

theorem WaitTime_beyond_1023_witness:
  "(1024::nat) \<le> 1024 \<and> fst (WaitTime amd64 1024 (steady (1 / 2))) = - 9223372036854775808"
  using WaitTime_beyond_1023 [of 1024 amd64 "steady (1 / 2)"] by (simp add: sint_amd64)

lemma round64_nonneg:
  assumes "0 \<le> x"
  shows "round64 x = PInf \<or> (\<exists>y. round64 x = Fin y \<and> 0 \<le> y)"
proof (cases "x = 0")
  case True
  then show ?thesis by (simp add: round64_def)
next
  case False
  then have "0 < x" using assms by simp
  then show ?thesis using rval_nonneg[OF assms] by (auto simp: round64_rval)
qed

lemma representable_0: "representable 0"
  unfolding representable_def by (intro exI[of _ 0]) simp

lemma representable_int: "\<bar>m\<bar> < 2 ^ 53 \<Longrightarrow> representable (of_int m)"
  unfolding representable_def by (intro exI[of _ m] exI[of _ 0]) simp

lemma representable_half_pow2: "n \<le> 1023 \<Longrightarrow> representable (2 ^ n / 2)"
proof (cases n)
  case 0
  have "(1::real) / 2 = of_int 1 * 2 powi (- 1)" by (simp add: power_int_minus)
  then show ?thesis using 0 unfolding representable_def
    by (intro exI[of _ 1] exI[of _ "- 1"]) simp
next
  case (Suc k)
  assume "n \<le> 1023"
  then have "k \<le> 1023" using Suc by simp
  from representable_pow2[OF this] show ?thesis using Suc by simp
qed

text \<open>The first statements of \<open>WaitTime\<close> for an attempt up to 1022: all exact.\<close>

lemma WaitTime_steps:
  assumes a: "attempt \<le> 1022"
  shows "float64_of_nat attempt = Fin (real attempt)"
    and "Exp2 (float64_of_nat attempt) = Fin (2 ^ attempt)"
    and "Exp2 (fadd (float64_of_nat attempt) (Fin 1)) = Fin (2 ^ Suc attempt)"
    and "fdiv (fsub (Fin (2 ^ Suc attempt)) (Fin (2 ^ attempt))) (Fin 2) = Fin (2 ^ attempt / 2)"
proof -
  have lt: "attempt < 2 ^ 53" using a by simp
  show f: "float64_of_nat attempt = Fin (real attempt)" by (rule float64_of_nat_small[OF lt])
  show "Exp2 (float64_of_nat attempt) = Fin (2 ^ attempt)"
    unfolding f using a by (intro Exp2_nat) simp
  have "Suc attempt < 2 ^ 53" using a by simp
  from representable_of_nat[OF this]
  have "fadd (Fin (real attempt)) (Fin 1) = Fin (real (Suc attempt))"
    by (simp add: round64_representable add.commute)
  then show "Exp2 (fadd (float64_of_nat attempt) (Fin 1)) = Fin (2 ^ Suc attempt)"
    unfolding f using a by (simp only: Exp2_nat)
  have "fsub (Fin (2 ^ Suc attempt)) (Fin (2 ^ attempt)) = round64 (2 ^ attempt)"
    by (simp add: fsub_def)
  also have "\<dots> = Fin (2 ^ attempt)" using a by (intro round64_representable representable_pow2) simp
  finally show "fdiv (fsub (Fin (2 ^ Suc attempt)) (Fin (2 ^ attempt))) (Fin 2) = Fin (2 ^ attempt / 2)"
    using a representable_half_pow2[of attempt] by (simp add: round64_representable)
qed

lemma WaitTime_unfold:
  assumes a: "attempt \<le> 1022"
  shows "WaitTime unrep attempt rs =
    (let total = fmul (fadd (Fin (2 ^ attempt)) (fmul (Fin (rs 0)) (Fin (2 ^ attempt / 2)))) Second
     in if fgt total maxWaitTime then (to_int unrep maxWaitTime, \<lambda>n. rs (Suc n))
        else (to_int unrep total, \<lambda>n. rs (Suc n)))"
  unfolding WaitTime_def Let_def Float64_def WaitTime_steps(2,3)[OF a] WaitTime_steps(4)[OF a]
  by simp

lemma to_int_cap: "to_int unrep maxWaitTime = 900000000000"
  by (simp add: to_int_def maxWaitTime_def truncation_def)

lemma WaitTime_high_attempts:
  assumes "10 \<le> attempt" "attempt \<le> 1022" "0 \<le> rs 0"
  shows "fst (WaitTime unrep attempt rs) = 900000000000"
proof -
  let ?b = "2 ^ attempt :: real"
  have b: "1024 \<le> ?b"
  proof -
    have "(2::real) ^ 10 \<le> 2 ^ attempt" using assms(1) by (intro power_increasing) auto
    then show ?thesis by simp
  qed
  have rb: "representable ?b" using assms(2) by (intro representable_pow2) simp
  let ?delay = "fmul (Fin (rs 0)) (Fin (?b / 2))"
  have "0 \<le> rs 0 * (?b / 2)" using assms(3) by simp
  from round64_nonneg[OF this]
  have d: "?delay = PInf \<or> (\<exists>y. ?delay = Fin y \<and> 0 \<le> y)" by simp
  let ?sum = "fadd (Fin ?b) ?delay"
  have s: "?sum = PInf \<or> (\<exists>t. ?sum = Fin t \<and> ?b \<le> t)"
  proof -
    from d show ?thesis
    proof
      assume "?delay = PInf" then show ?thesis by simp
    next
      assume "\<exists>y. ?delay = Fin y \<and> 0 \<le> y"
      then obtain y where y: "?delay = Fin y" "0 \<le> y" by blast
      have "?b \<le> ?b + y" using y by simp
      from round64_at_least[OF rb _ this] y(1) show ?thesis by simp
    qed
  qed
  let ?total = "fmul ?sum Second"
  have r: "representable 1024000000000"
    using representable_int[of 1024000000000] by simp
  have t: "?total = PInf \<or> (\<exists>z. ?total = Fin z \<and> 1024000000000 \<le> z)"
  proof -
    from s show ?thesis
    proof
      assume "?sum = PInf" then show ?thesis by (simp add: Second_def signed_inf_def)
    next
      assume "\<exists>t. ?sum = Fin t \<and> ?b \<le> t"
      then obtain t where t: "?sum = Fin t" "?b \<le> t" by blast
      have "1024000000000 \<le> t * 1000000000" using t(2) b by simp
      from round64_at_least[OF r _ this] t(1) show ?thesis by (simp add: Second_def)
    qed
  qed
  then have "fgt ?total maxWaitTime" by (auto simp: maxWaitTime_def)
  then show ?thesis
    unfolding WaitTime_unfold[OF assms(2)] Let_def by (simp add: to_int_cap)
qed

lemma WaitTime_low_attempts:
  assumes "attempt \<le> 9" "0 \<le> rs 0" "rs 0 < 1"
  shows "2 ^ attempt * 1000000000 \<le> fst (WaitTime unrep attempt rs) \<and>
         fst (WaitTime unrep attempt rs) < 2 ^ (attempt + 1) * 1000000000"
proof -
  have a: "attempt \<le> 1022" using assms(1) by simp
  let ?b = "2 ^ attempt :: real"
  have b1: "1 \<le> ?b" by simp
  have b9: "?b \<le> 512"
  proof -
    have "(2::real) ^ attempt \<le> 2 ^ 9" using assms(1) by (intro power_increasing) auto
    then show ?thesis by simp
  qed
  have rb: "representable ?b" using a by (intro representable_pow2) simp
  have rh: "representable (?b / 2)" using a by (intro representable_half_pow2) simp
  let ?delay = "fmul (Fin (rs 0)) (Fin (?b / 2))"
  have "0 \<le> rs 0 * (?b / 2)" "rs 0 * (?b / 2) \<le> ?b / 2"
    using assms(2,3) by (simp_all add: mult_left_le_one_le)
  from round64_between[OF representable_0 rh _ this]
  obtain y where y: "?delay = Fin y" "0 \<le> y" "y \<le> ?b / 2" by auto
  let ?sum = "fadd (Fin ?b) ?delay"
  have r3: "representable (?b + ?b / 2)"
  proof -
    have "?b + ?b / 2 = of_int 3 * 2 powi (int attempt - 1)"
      by (simp add: power_int_diff)
    moreover have "int attempt - 1 \<le> 971" "- 1074 \<le> int attempt - 1" using assms(1) by simp_all
    ultimately show ?thesis unfolding representable_def
      by (intro exI[of _ 3] exI[of _ "int attempt - 1"]) simp
  qed
  have "?b \<le> ?b + y" "?b + y \<le> ?b + ?b / 2" using y by simp_all
  from round64_between[OF rb r3 _ this] y(1)
  obtain t where t: "?sum = Fin t" "?b \<le> t" "t \<le> ?b + ?b / 2" by auto
  let ?total = "fmul ?sum Second"
  have rlo: "representable (?b * 1000000000)"
  proof -
    have "\<bar>2 ^ attempt * 1000000000 :: int\<bar> < 2 ^ 53"
    proof -
      have "(2::int) ^ attempt \<le> 2 ^ 9" using assms(1) by (intro power_increasing) auto
      then show ?thesis by simp
    qed
    from representable_int[OF this] show ?thesis by simp
  qed
  have rhi: "representable (?b * 1500000000)"
  proof -
    have "\<bar>2 ^ attempt * 1500000000 :: int\<bar> < 2 ^ 53"
    proof -
      have "(2::int) ^ attempt \<le> 2 ^ 9" using assms(1) by (intro power_increasing) auto
      then show ?thesis by simp
    qed
    from representable_int[OF this] show ?thesis by simp
  qed
  have "?b * 1000000000 \<le> t * 1000000000" "t * 1000000000 \<le> ?b * 1500000000"
    using t by simp_all
  from round64_between[OF rlo rhi _ this] t(1)
  obtain z where z: "?total = Fin z" "?b * 1000000000 \<le> z" "z \<le> ?b * 1500000000"
    by (auto simp: Second_def)
  have zcap: "z \<le> 768000000000" using z(3) b9 by simp
  then have nfgt: "\<not> fgt ?total maxWaitTime" using z(1) by (simp add: maxWaitTime_def)
  have z0: "0 \<le> z" using z(2) b1 by (smt (verit) mult_nonneg_nonneg)
  have fl: "\<lfloor>z\<rfloor> \<le> 768000000000" using zcap by (simp add: floor_le_iff)
  have fl0: "0 \<le> \<lfloor>z\<rfloor>" using z0 by simp
  have res: "fst (WaitTime unrep attempt rs) = \<lfloor>z\<rfloor>"
    unfolding WaitTime_unfold[OF a] Let_def using nfgt z(1) z0 fl fl0
    by (simp add: to_int_def truncation_def)
  have lo: "2 ^ attempt * 1000000000 \<le> \<lfloor>z\<rfloor>"
  proof -
    have "real_of_int (2 ^ attempt * 1000000000) \<le> z" using z(2) by simp
    then show ?thesis by (simp only: le_floor_iff)
  qed
  have hi: "\<lfloor>z\<rfloor> \<le> 2 ^ attempt * 1500000000"
  proof -
    have "z \<le> real_of_int (2 ^ attempt * 1500000000)" using z(3) by simp
    then have "\<lfloor>z\<rfloor> \<le> \<lfloor>real_of_int (2 ^ attempt * 1500000000)\<rfloor>" by (rule floor_mono)
    then show ?thesis by (simp only: floor_of_int)
  qed
  have "(2 ^ attempt * 1500000000 :: int) < 2 ^ (attempt + 1) * 1000000000" by simp
  with hi have hi2: "\<lfloor>z\<rfloor> < 2 ^ (attempt + 1) * 1000000000" by (rule order_le_less_trans)
  from lo hi2 show ?thesis unfolding res by blast
qed

lemma WaitTime_positive:
  assumes "attempt \<le> 1022" "0 \<le> rs 0" "rs 0 < 1"
  shows "0 < fst (WaitTime unrep attempt rs)"
proof (cases "attempt \<le> 9")
  case True
  from WaitTime_low_attempts[where rs = rs and unrep = unrep, OF True assms(2,3)]
  have "2 ^ attempt * 1000000000 \<le> fst (WaitTime unrep attempt rs)" by simp
  moreover have "(0::int) < 2 ^ attempt * 1000000000" by simp
  ultimately show ?thesis by linarith
next
  case False
  then have "10 \<le> attempt" by simp
  from WaitTime_high_attempts[where rs = rs and unrep = unrep, OF this assms(1,2)] show ?thesis by simp
qed

lemma WaitTime_snd: "snd (WaitTime unrep attempt rs) = (\<lambda>n. rs (Suc n))"
  by (simp add: WaitTime_def Let_def Float64_def)

lemma round64_2: "round64 2 = Fin 2"
  using round64_representable[OF representable_of_nat[of 2]] by simp

lemma round64_10: "round64 10 = Fin 10"
  using round64_representable[OF representable_of_nat[of 10]] by simp

lemma round64_10000000000: "round64 10000000000 = Fin 10000000000"
  using round64_representable[OF representable_of_nat[of 10000000000]] by simp

lemma WaitTime_3_half: "fst (WaitTime unrep 3 (steady (1 / 2))) = 10000000000"
proof -
  have "(3::nat) \<le> 1022" by simp
  from WaitTime_unfold[OF this, of unrep "steady (1 / 2)"] show ?thesis
    by (simp add: steady_def Second_def maxWaitTime_def round64_2 round64_10 round64_10000000000
          to_int_def truncation_def)
qed

text \<open>
  C2 (the delay law).  The claim: for every attempt \<open>a\<close> the delay \<open>d\<close> satisfies
  \<open>2 ^ a * 10 ^ 9 \<le> d < 2 ^ (a + 1) * 10 ^ 9\<close>, unless the computed value exceeds the cap,
  in which case the cap is returned.  At attempt 1024 the computed total is a NaN,
  which exceeds nothing, and the value returned is the conversion of that NaN: a
  64-bit number, so below the claimed interval on every platform, and
  \<open>-9223372036854775808\<close> on amd64.
\<close>

theorem WaitTime_1024_outside:
  "fst (WaitTime unrep 1024 rs) < 2 ^ 1024 * 1000000000 \<and>
   fst (WaitTime amd64 1024 rs) = - 9223372036854775808"
proof -
  have "sint (unrep NaN) < 2 ^ 63" using sint_lt[of "unrep NaN"] by simp
  also have "(2::int) ^ 63 < 2 ^ 1024 * 1000000000"
  proof -
    have "(2::int) ^ 63 < 2 ^ 1024" by (intro power_strict_increasing) auto
    also have "\<dots> \<le> 2 ^ 1024 * 1000000000" by simp
    finally show ?thesis .
  qed
  finally show ?thesis by (simp add: WaitTime_NaN sint_amd64)
qed

text \<open>
  The delay law where it holds.  For the attempts 0 to 9 and a draw in \<open>[0, 1)\<close> the
  delay lies in \<open>[2 ^ a, 2 ^ (a + 1))\<close> seconds (in fact below \<open>1.5 * 2 ^ a\<close>); with
  every draw \<open>1 / 2\<close>, attempt 3 waits exactly ten seconds.
\<close>

theorem WaitTime_delay_law:
  "attempt \<le> 9 \<Longrightarrow> 0 \<le> rs 0 \<Longrightarrow> rs 0 < 1 \<Longrightarrow>
   2 ^ attempt * 1000000000 \<le> fst (WaitTime unrep attempt rs) \<and>
   fst (WaitTime unrep attempt rs) < 2 ^ (attempt + 1) * 1000000000"
  by (rule WaitTime_low_attempts)

theorem WaitTime_delay_law_witness:
  "(3::nat) \<le> 9 \<and> 0 \<le> steady (1 / 2) 0 \<and> steady (1 / 2) 0 < 1 \<and>
   2 ^ 3 * 1000000000 \<le> fst (WaitTime amd64 3 (steady (1 / 2))) \<and>
   fst (WaitTime amd64 3 (steady (1 / 2))) < 2 ^ (3 + 1) * 1000000000 \<and>
   fst (WaitTime amd64 3 (steady (1 / 2))) = 10000000000"
proof -
  have a: "(3::nat) \<le> 9" by simp
  have b: "0 \<le> steady (1 / 2) 0" and c: "steady (1 / 2) 0 < 1" by (simp_all add: steady_def)
  from WaitTime_delay_law[where rs = "steady (1 / 2)" and unrep = amd64, OF a b c] a b c
    WaitTime_3_half[of amd64]
  show ?thesis by blast
qed

text \<open>
  The cap where it holds.  For the attempts 10 to 1022 the delay is exactly
  \<open>900000000000\<close> nanoseconds, whatever the draw.
\<close>

theorem WaitTime_capped:
  "10 \<le> attempt \<Longrightarrow> attempt \<le> 1022 \<Longrightarrow> 0 \<le> rs 0 \<Longrightarrow>
   fst (WaitTime unrep attempt rs) = 900000000000"
  by (rule WaitTime_high_attempts)

theorem WaitTime_capped_witness:
  "(10::nat) \<le> 10 \<and> (10::nat) \<le> 1022 \<and> 0 \<le> steady (1 / 2) 0 \<and>
   fst (WaitTime amd64 10 (steady (1 / 2))) = 900000000000"
proof -
  have a: "(10::nat) \<le> 10" and a': "(10::nat) \<le> 1022" by simp_all
  have b: "0 \<le> steady (1 / 2) 0" by (simp add: steady_def)
  from WaitTime_capped[where rs = "steady (1 / 2)" and unrep = amd64, OF a a' b] a a' b
  show ?thesis by blast
qed

section \<open>The retry loop\<close>

lemma state_before_Suc: "state_before f s (Suc n) = snd (f (state_before f s n))"
  by (induction n arbitrary: s) simp_all

lemma waitTime_maxRetry: "waitTime unrep r a = (w, r') \<Longrightarrow> maxRetry r' = maxRetry r \<and> testMode r' = testMode r"
  by (auto simp: waitTime_def split: if_splits prod.splits)

text \<open>Whatever way the loop returns, the caller's variables are as the last invocation left them\<close>

lemma retry_loop_last:
  "retry_loop fuel unrep r ctx f a errs s ws = Some (Returns fin) \<Longrightarrow>
   s = state_before f s0 (Suc a) \<Longrightarrow> returned f s0 a \<noteq> None \<Longrightarrow>
   a < invocations fin \<and>
   user fin = state_before f s0 (invocations fin) \<and>
   (result fin = None \<longleftrightarrow> returned f s0 (invocations fin - 1) = None)"
proof (induction fuel arbitrary: r a errs s ws)
  case 0
  then show ?case by simp
next
  case (Suc fuel)
  show ?case
  proof (cases "ctx_done ctx a")
    case True
    with Suc.prems show ?thesis by auto
  next
    case False
    obtain eo s' where fs: "f s = (eo, s')" by (cases "f s")
    have s': "s' = state_before f s0 (Suc (Suc a))"
      using fs Suc.prems(2) state_before_Suc[of f s0 "Suc a"] by simp
    have ret: "returned f s0 (Suc a) = eo"
      using fs Suc.prems(2) by (simp add: returned_def)
    show ?thesis
    proof (cases eo)
      case None
      with Suc.prems False fs s' ret show ?thesis by auto
    next
      case (Some e)
      obtain wait r' where wt: "waitTime unrep r (Suc a) = (wait, r')"
        by (cases "waitTime unrep r (Suc a)")
      let ?errs' = "Some (case errs of None \<Rightarrow> attempt_failed (Suc a) e
                     | Some x \<Rightarrow> Wrap x (Error (attempt_failed (Suc a) e)))"
      show ?thesis
      proof (cases "wait \<le> 0")
        case True
        with Suc.prems False fs Some wt show ?thesis by simp
      next
        case pos: False
        show ?thesis
        proof (cases "0 \<le> maxRetry r \<and> maxRetry r \<le> int (Suc a)")
          case True
          with Suc.prems False fs Some wt pos
          have fin: "fin = \<lparr>result = ?errs', user = s', handler = r',
                           invocations = Suc (Suc a), tickers = ws @ [wait]\<rparr>"
            by (simp add: Let_def)
          show ?thesis using fin s' ret Some by simp
        next
          case cont: False
          with Suc.prems False fs Some wt pos
          have rec: "retry_loop fuel unrep r' ctx f (Suc a) ?errs' s' (ws @ [wait]) = Some (Returns fin)"
            by (auto simp: Let_def split: if_splits)
          have "returned f s0 (Suc a) \<noteq> None" using ret Some by simp
          from Suc.IH[OF rec s' this] show ?thesis by simp
        qed
      qed
    qed
  qed
qed

lemma Do_last:
  assumes "Do fuel unrep r ctx f s = Some (Returns fin)"
  shows "0 < invocations fin \<and>
         user fin = state_before f s (invocations fin) \<and>
         (result fin = None \<longleftrightarrow> returned f s (invocations fin - 1) = None)"
proof -
  obtain eo s' where fs: "f s = (eo, s')" by (cases "f s")
  show ?thesis
  proof (cases "eo = None \<or> maxRetry r = 0")
    case True
    with assms fs show ?thesis by (auto simp: Do_def returned_def)
  next
    case False
    obtain wait r' where wt: "waitTime unrep r 0 = (wait, r')" by (cases "waitTime unrep r 0")
    from assms fs False wt have pos: "\<not> wait \<le> 0" and
      loop: "retry_loop fuel unrep r' ctx f 0 None s' [wait] = Some (Returns fin)"
      by (auto simp: Do_def split: if_splits)
    have "s' = state_before f s (Suc 0)" using fs by simp
    moreover have "returned f s 0 \<noteq> None" using fs False by (simp add: returned_def)
    ultimately show ?thesis using retry_loop_last[OF loop] by simp
  qed
qed


lemma returned_Suc: "returned f s (Suc k) = returned f (snd (f s)) k"
  by (simp add: returned_def)

lemma retry_loop_exhausted:
  "retry_loop fuel unrep r ctx f a errs s ws = Some (Returns fin) \<Longrightarrow>
   \<forall>i<invocations fin. \<not> ctx_done ctx i \<Longrightarrow>
   result fin \<noteq> None \<Longrightarrow>
   int a < maxRetry r \<or> maxRetry r < 0 \<Longrightarrow>
   \<exists>es. es \<noteq> [] \<and> invocations fin = Suc (a + length es) \<and>
        (\<forall>k<length es. returned f s k = Some (es ! k)) \<and>
        result fin = accumulate errs a es \<and>
        maxRetry r = int (a + length es)"
proof (induction fuel arbitrary: r a errs s ws)
  case 0
  then show ?case by simp
next
  case (Suc fuel)
  show ?case
  proof (cases "ctx_done ctx a")
    case True
    with Suc.prems show ?thesis by auto
  next
    case False
    obtain eo s' where fs: "f s = (eo, s')" by (cases "f s")
    show ?thesis
    proof (cases eo)
      case None
      with Suc.prems False fs show ?thesis by auto
    next
      case (Some e)
      obtain wait r' where wt: "waitTime unrep r (Suc a) = (wait, r')"
        by (cases "waitTime unrep r (Suc a)")
      have mr: "maxRetry r' = maxRetry r"
        using waitTime_maxRetry[OF wt] by simp
      let ?errs' = "Some (case errs of None \<Rightarrow> attempt_failed (Suc a) e
                     | Some x \<Rightarrow> Wrap x (Error (attempt_failed (Suc a) e)))"
      show ?thesis
      proof (cases "wait \<le> 0")
        case True
        with Suc.prems False fs Some wt show ?thesis by simp
      next
        case pos: False
        show ?thesis
        proof (cases "0 \<le> maxRetry r \<and> maxRetry r \<le> int (Suc a)")
          case True
          with Suc.prems False fs Some wt pos
          have fin: "fin = \<lparr>result = ?errs', user = s', handler = r',
                           invocations = Suc (Suc a), tickers = ws @ [wait]\<rparr>"
            by (simp add: Let_def)
          show ?thesis
            apply (rule exI[of _ "[e]"])
            using fin fs Some True Suc.prems(4) by (simp add: returned_def)
        next
          case cont: False
          with Suc.prems False fs Some wt pos
          have rec: "retry_loop fuel unrep r' ctx f (Suc a) ?errs' s' (ws @ [wait]) = Some (Returns fin)"
            by (auto simp: Let_def split: if_splits)
          have "int (Suc a) < maxRetry r' \<or> maxRetry r' < 0"
            using cont mr by auto
          from Suc.IH[OF rec Suc.prems(2) Suc.prems(3) this]
          obtain es where es: "es \<noteq> []" "invocations fin = Suc (Suc a + length es)"
            "\<forall>k<length es. returned f s' k = Some (es ! k)"
            "result fin = accumulate ?errs' (Suc a) es"
            "maxRetry r' = int (Suc a + length es)"
            by blast
          show ?thesis
            apply (rule exI[of _ "e # es"])
            using es fs Some mr
            apply (auto simp: returned_Suc nth_Cons split: nat.splits)
            apply (simp add: returned_def)
            done
        qed
      qed
    qed
  qed
qed

lemma Error_attempt_failed: "Error (attempt_failed N e) = attempt_text N e"
  by (simp add: attempt_failed_def attempt_text_def)

lemma chain_attempt_failed: "chain (attempt_failed N e) = [attempt_text N e]"
  by (simp add: attempt_failed_def attempt_text_def)

lemma chain_accumulate:
  "accumulate errs a es = Some E \<Longrightarrow>
   chain E = rev (map (\<lambda>(N, e). attempt_text N e) (zip [Suc a..<Suc a + length es] es)) @
             (case errs of None \<Rightarrow> [] | Some x \<Rightarrow> chain x)"
proof (induction es arbitrary: errs a)
  case Nil
  then show ?case by simp
next
  case (Cons e es)
  let ?X = "case errs of None \<Rightarrow> attempt_failed (Suc a) e
            | Some x \<Rightarrow> Wrap x (Error (attempt_failed (Suc a) e))"
  from Cons.prems have "accumulate (Some ?X) (Suc a) es = Some E" by simp
  from Cons.IH[OF this]
  have "chain E = rev (map (\<lambda>(N, e). attempt_text N e) (zip [Suc (Suc a)..<Suc (Suc a) + length es] es)) @ chain ?X"
    by simp
  moreover have "chain ?X = attempt_text (Suc a) e # (case errs of None \<Rightarrow> [] | Some x \<Rightarrow> chain x)"
    by (simp add: chain_attempt_failed Error_attempt_failed split: option.splits)
  moreover have "[Suc a..<Suc a + length (e # es)] = Suc a # [Suc (Suc a)..<Suc (Suc a) + length es]"
    by (subst upt_conv_Cons) simp_all
  ultimately show ?case by simp
qed

lemma retry_loop_numeral:
  "retry_loop (numeral k) unrep r ctx f attempt errs s ws =
     (if ctx_done ctx attempt then
        Some (Returns \<lparr>result = Some (ctx_err ctx), user = s, handler = r,
                       invocations = Suc attempt, tickers = ws\<rparr>)
      else
        case f s of
          (None, s') \<Rightarrow>
            Some (Returns \<lparr>result = None, user = s', handler = r,
                           invocations = Suc (Suc attempt), tickers = ws\<rparr>)
        | (Some e, s') \<Rightarrow>
            let err = attempt_failed (Suc attempt) e;
                errs' = (case errs of None \<Rightarrow> err | Some es \<Rightarrow> Wrap es (Error err))
            in case waitTime unrep r (Suc attempt) of
                 (wait, r') \<Rightarrow>
                   if wait \<le> 0 then Some Panics
                   else if 0 \<le> maxRetry r \<and> maxRetry r \<le> int (Suc attempt) then
                     Some (Returns \<lparr>result = Some errs', user = s', handler = r',
                                    invocations = Suc (Suc attempt), tickers = ws @ [wait]\<rparr>)
                   else retry_loop (pred_numeral k) unrep r' ctx f (Suc attempt) (Some errs') s' (ws @ [wait]))"
  by (simp add: numeral_eq_Suc)

lemma test_retry_simps [simp]: "maxRetry (test_retry n) = n" "testMode (test_retry n)"
  by (simp_all add: test_retry_def NewTestRetry_def NewRetry_def)

lemmas run_simps = Do_def retry_loop_numeral waitTime_def attempt_failed_def digit_def

text \<open>
  C4 (no retries).  With \<open>maxRetry = 0\<close>, \<open>Do\<close> invokes the operation exactly once
  and returns what it returned, nil or the error unchanged; no ticker is created, so
  there is no delay, and the context plays no part.  This holds with no rounds of the
  loop at all.
\<close>

theorem Do_maxRetry_zero:
  "maxRetry r = 0 \<Longrightarrow>
   Do fuel unrep r ctx f s =
     Some (Returns \<lparr>result = fst (f s), user = snd (f s), handler = r, invocations = 1, tickers = []\<rparr>)"
  by (simp add: Do_def split: prod.splits)

theorem Do_maxRetry_zero_witness:
  "maxRetry (test_retry 0) = 0 \<and>
   Do 0 amd64 (test_retry 0) (done_from 0) always_boom 0 =
     Some (Returns \<lparr>result = Some (Err ''boom''), user = 1, handler = test_retry 0,
                    invocations = 1, tickers = []\<rparr>)"
  using Do_maxRetry_zero [of "test_retry 0" 0 amd64 "done_from 0" always_boom 0]
  by (simp add: always_boom_def)

text \<open>
  C6 (the form of the accumulated error).  When \<open>Do\<close> returns an error after its
  retries and not because the context was done, the cause chain of that error has one
  message for each retry attempt \<open>N = 1, 2, ...\<close>, the latest outermost, and the message
  of attempt \<open>N\<close> is \<open>retry attempt #N failed '<inner>'\<close> with the text of the error
  that the operation returned on that attempt.
\<close>

theorem Do_exhausted_chain:
  assumes "Do fuel unrep r ctx f s = Some (Returns fin)"
    and "maxRetry r \<noteq> 0"
    and "result fin = Some E"
    and "\<forall>i<invocations fin. \<not> ctx_done ctx i"
  shows "length (chain E) = invocations fin - 1 \<and>
         (\<forall>N. 1 \<le> N \<and> N < invocations fin \<longrightarrow>
            (\<exists>e. returned f s N = Some e \<and>
                 chain E ! (invocations fin - 1 - N) =
                   ''retry attempt #'' @ show_nat N @ '' failed '' @ [CHR 0x27] @ Error e @ [CHR 0x27]))"
proof -
  obtain eo s' where fs: "f s = (eo, s')" by (cases "f s")
  obtain wait r' where wt: "waitTime unrep r 0 = (wait, r')" by (cases "waitTime unrep r 0")
  have mr: "maxRetry r' = maxRetry r" using waitTime_maxRetry[OF wt] by simp
  have eo: "eo \<noteq> None"
  proof
    assume "eo = None"
    with assms(1) fs have "result fin = None" by (auto simp: Do_def)
    with assms(3) show False by simp
  qed
  from assms(1,2) fs eo wt have
    loop: "retry_loop fuel unrep r' ctx f 0 None s' [wait] = Some (Returns fin)"
    by (auto simp: Do_def split: if_splits)
  have "int 0 < maxRetry r' \<or> maxRetry r' < 0" using assms(2) mr by auto
  from retry_loop_exhausted[OF loop assms(4) _ this] assms(3)
  obtain es where es: "es \<noteq> []" "invocations fin = Suc (length es)"
    "\<forall>k<length es. returned f s' k = Some (es ! k)"
    "result fin = accumulate None 0 es"
    by auto
  let ?L = "map (\<lambda>(N, e). attempt_text N e) (zip [Suc 0..<Suc 0 + length es] es)"
  have ch: "chain E = rev ?L"
    using chain_accumulate[of None 0 es E] es(4) assms(3) by (simp del: upt_Suc)
  have len: "length ?L = length es" by (simp del: upt_Suc)
  have s': "s' = snd (f s)" using fs by simp
  show ?thesis
  proof (intro conjI allI impI)
    show "length (chain E) = invocations fin - 1" using ch es(2) len by (simp del: upt_Suc)
  next
    fix N assume N: "1 \<le> N \<and> N < invocations fin"
    then obtain k where k: "N = Suc k" "k < length es" using es(2) by (cases N) auto
    have r: "returned f s N = Some (es ! k)"
      using es(3) k s' by (simp add: returned_def)
    have "invocations fin - 1 - N < length ?L" using k es(2) len by (simp del: upt_Suc)
    then have "rev ?L ! (invocations fin - 1 - N) = ?L ! (length ?L - Suc (invocations fin - 1 - N))"
      by (rule rev_nth)
    also have "length ?L - Suc (invocations fin - 1 - N) = k" using k es(2) len by (simp del: upt_Suc)
    also have "?L ! k = attempt_text N (es ! k)" using k by (simp del: upt_Suc)
    finally have "chain E ! (invocations fin - 1 - N) = attempt_text N (es ! k)"
      using ch by simp
    with r show "\<exists>e. returned f s N = Some e \<and>
                 chain E ! (invocations fin - 1 - N) =
                   ''retry attempt #'' @ show_nat N @ '' failed '' @ [CHR 0x27] @ Error e @ [CHR 0x27]"
      by (simp add: attempt_text_def)
  qed
qed

lemma numbered_run:
  "Do 5 amd64 (test_retry 2) never_done numbered 0 =
     Some (Returns
       \<lparr>result = Some (Wrap (Err (''retry attempt #1 failed '' @ [CHR 0x27] @ ''e1'' @ [CHR 0x27]))
                              (''retry attempt #2 failed '' @ [CHR 0x27] @ ''e2'' @ [CHR 0x27])),
        user = 3, handler = test_retry 2, invocations = 3, tickers = [1, 1, 1]\<rparr>)"
  by (simp add: run_simps numbered_def never_done_def)

theorem Do_exhausted_chain_witness:
  "Do 5 amd64 (test_retry 2) never_done numbered 0 =
     Some (Returns
       \<lparr>result = Some (Wrap (Err (''retry attempt #1 failed '' @ [CHR 0x27] @ ''e1'' @ [CHR 0x27]))
                              (''retry attempt #2 failed '' @ [CHR 0x27] @ ''e2'' @ [CHR 0x27])),
        user = 3, handler = test_retry 2, invocations = 3, tickers = [1, 1, 1]\<rparr>) \<and>
   returned numbered 0 1 = Some (Err ''e1'') \<and>
   returned numbered 0 2 = Some (Err ''e2'') \<and>
   chain (Wrap (Err (''retry attempt #1 failed '' @ [CHR 0x27] @ ''e1'' @ [CHR 0x27]))
               (''retry attempt #2 failed '' @ [CHR 0x27] @ ''e2'' @ [CHR 0x27])) ! (3 - 1 - 1) =
     ''retry attempt #1 failed '' @ [CHR 0x27] @ ''e1'' @ [CHR 0x27]"
proof -
  let ?E = "Wrap (Err (''retry attempt #1 failed '' @ [CHR 0x27] @ ''e1'' @ [CHR 0x27]))
                 (''retry attempt #2 failed '' @ [CHR 0x27] @ ''e2'' @ [CHR 0x27])"
  let ?fin = "\<lparr>result = Some ?E, user = 3::nat, handler = test_retry 2,
              invocations = 3, tickers = [1, 1, 1]\<rparr>"
  have run: "Do 5 amd64 (test_retry 2) never_done numbered 0 = Some (Returns ?fin)"
    by (rule numbered_run)
  have mr: "maxRetry (test_retry 2) \<noteq> 0" by simp
  have res: "result ?fin = Some ?E" by simp
  have ctx: "\<forall>i<invocations ?fin. \<not> ctx_done never_done i" by (simp add: never_done_def)
  have r1: "returned numbered 0 1 = Some (Err ''e1'')"
    by (simp add: returned_def numbered_def digit_def)
  have r2: "returned numbered 0 2 = Some (Err ''e2'')"
    by (simp add: returned_def numbered_def digit_def numeral_2_eq_2)
  have "1 \<le> (1::nat) \<and> 1 < invocations ?fin" by simp
  from Do_exhausted_chain [OF run mr res ctx, THEN conjunct2, rule_format, OF this]
  have "\<exists>e. returned numbered 0 1 = Some e \<and>
          chain ?E ! (invocations ?fin - 1 - 1) =
            ''retry attempt #'' @ show_nat 1 @ '' failed '' @ [CHR 0x27] @ Error e @ [CHR 0x27]" .
  with r1 have "chain ?E ! (3 - 1 - 1) = ''retry attempt #1 failed '' @ [CHR 0x27] @ ''e1'' @ [CHR 0x27]"
    by (simp add: digit_def)
  with run r1 r2 show ?thesis by blast
qed






lemma waitTime_positive:
  assumes "waits_ok r n" "a \<le> n" "waitTime unrep r a = (w, r')"
  shows "0 < w \<and> waits_ok r' n \<and> maxRetry r' = maxRetry r"
proof (cases "testMode r")
  case True
  with assms(3) show ?thesis using assms(1) by (auto simp: waitTime_def waits_ok_def)
next
  case False
  with assms(1) have n: "n \<le> 1022" and d: "\<forall>i. 0 \<le> random r i \<and> random r i < 1"
    by (auto simp: waits_ok_def)
  from assms(3) False have w: "w = fst (WaitTime unrep a (random r))"
    and r': "r' = r\<lparr>random := snd (WaitTime unrep a (random r))\<rparr>"
    by (auto simp: waitTime_def split: prod.splits)
  have "0 < w" unfolding w
    using n assms(2) d by (intro WaitTime_positive[where rs = "random r"]) auto
  moreover have "waits_ok r' n" using n d by (simp add: r' WaitTime_snd waits_ok_def)
  moreover have "maxRetry r' = maxRetry r" by (simp add: r')
  ultimately show ?thesis by blast
qed

lemma retry_loop_cancelled:
  "waits_ok r k \<Longrightarrow> always_fails f \<Longrightarrow> maxRetry r < 0 \<or> int k < maxRetry r \<Longrightarrow>
   \<forall>i<k. \<not> ctx_done ctx i \<Longrightarrow> ctx_done ctx k \<Longrightarrow> a \<le> k \<Longrightarrow> k - a < fuel \<Longrightarrow>
   \<exists>fin. retry_loop fuel unrep r ctx f a errs s ws = Some (Returns fin) \<and>
         result fin = Some (ctx_err ctx) \<and> invocations fin = Suc k"
proof (induction fuel arbitrary: r a errs s ws)
  case 0
  then show ?case by simp
next
  case (Suc fuel)
  show ?case
  proof (cases "a = k")
    case True
    with Suc.prems show ?thesis by simp
  next
    case False
    then have ak: "a < k" using Suc.prems(6) by simp
    then have nd: "\<not> ctx_done ctx a" using Suc.prems(4) by simp
    obtain eo s' where fs: "f s = (eo, s')" by (cases "f s")
    with Suc.prems(2) obtain e where e: "eo = Some e"
      by (cases eo) (auto simp: always_fails_def dest: spec[of _ s])
    obtain w r' where wt: "waitTime unrep r (Suc a) = (w, r')"
      by (cases "waitTime unrep r (Suc a)")
    from waitTime_positive[OF Suc.prems(1) _ wt] ak
    have w: "0 < w" and ok: "waits_ok r' k" and mr: "maxRetry r' = maxRetry r" by auto
    have nx: "\<not> (0 \<le> maxRetry r \<and> maxRetry r \<le> int (Suc a))"
      using Suc.prems(3) ak by auto
    let ?errs' = "Some (case errs of None \<Rightarrow> attempt_failed (Suc a) e
                     | Some x \<Rightarrow> Wrap x (Error (attempt_failed (Suc a) e)))"
    have step: "retry_loop (Suc fuel) unrep r ctx f a errs s ws =
                retry_loop fuel unrep r' ctx f (Suc a) ?errs' s' (ws @ [w])"
      using nd fs e wt w nx by (auto simp: Let_def)
    have "maxRetry r' < 0 \<or> int k < maxRetry r'" using Suc.prems(3) mr by simp
    from Suc.IH[OF ok Suc.prems(2) this Suc.prems(4,5)] ak Suc.prems(7)
    show ?thesis unfolding step by simp
  qed
qed

lemma retry_loop_running:
  "waits_ok r (a + fuel) \<Longrightarrow> always_fails f \<Longrightarrow> maxRetry r < 0 \<or> int (a + fuel) < maxRetry r \<Longrightarrow>
   \<forall>i<a + fuel. \<not> ctx_done ctx i \<Longrightarrow>
   retry_loop fuel unrep r ctx f a errs s ws = None"
proof (induction fuel arbitrary: r a errs s ws)
  case 0
  then show ?case by simp
next
  case (Suc fuel)
  have nd: "\<not> ctx_done ctx a" using Suc.prems(4) by simp
  obtain eo s' where fs: "f s = (eo, s')" by (cases "f s")
  with Suc.prems(2) obtain e where e: "eo = Some e"
    by (cases eo) (auto simp: always_fails_def dest: spec[of _ s])
  obtain w r' where wt: "waitTime unrep r (Suc a) = (w, r')"
    by (cases "waitTime unrep r (Suc a)")
  from waitTime_positive[OF Suc.prems(1) _ wt]
  have w: "0 < w" and ok: "waits_ok r' (Suc a + fuel)" and mr: "maxRetry r' = maxRetry r" by auto
  have nx: "\<not> (0 \<le> maxRetry r \<and> maxRetry r \<le> int (Suc a))"
    using Suc.prems(3) by auto
  let ?errs' = "Some (case errs of None \<Rightarrow> attempt_failed (Suc a) e
                   | Some x \<Rightarrow> Wrap x (Error (attempt_failed (Suc a) e)))"
  have step: "retry_loop (Suc fuel) unrep r ctx f a errs s ws =
              retry_loop fuel unrep r' ctx f (Suc a) ?errs' s' (ws @ [w])"
    using nd fs e wt w nx by (auto simp: Let_def)
  have "maxRetry r' < 0 \<or> int (Suc a + fuel) < maxRetry r'" using Suc.prems(3) mr by simp
  from Suc.IH[OF ok Suc.prems(2) this] Suc.prems(4)
  show ?case unfolding step by simp
qed

lemma retry_loop_exhausts:
  "waits_ok r m \<Longrightarrow> always_fails f \<Longrightarrow> maxRetry r = int m \<Longrightarrow>
   \<forall>i<m. \<not> ctx_done ctx i \<Longrightarrow> a < m \<Longrightarrow> m - a \<le> fuel \<Longrightarrow>
   \<exists>fin. retry_loop fuel unrep r ctx f a errs s ws = Some (Returns fin) \<and>
         result fin \<noteq> None \<and> invocations fin = Suc m \<and> length (tickers fin) = length ws + (m - a)"
proof (induction fuel arbitrary: r a errs s ws)
  case 0
  then show ?case by simp
next
  case (Suc fuel)
  have nd: "\<not> ctx_done ctx a" using Suc.prems(4,5) by simp
  obtain eo s' where fs: "f s = (eo, s')" by (cases "f s")
  with Suc.prems(2) obtain e where e: "eo = Some e"
    by (cases eo) (auto simp: always_fails_def dest: spec[of _ s])
  obtain w r' where wt: "waitTime unrep r (Suc a) = (w, r')"
    by (cases "waitTime unrep r (Suc a)")
  from waitTime_positive[OF Suc.prems(1) _ wt] Suc.prems(5)
  have w: "0 < w" and ok: "waits_ok r' m" and mr: "maxRetry r' = maxRetry r" by auto
  let ?errs' = "Some (case errs of None \<Rightarrow> attempt_failed (Suc a) e
                   | Some x \<Rightarrow> Wrap x (Error (attempt_failed (Suc a) e)))"
  show ?case
  proof (cases "Suc a = m")
    case True
    then have "0 \<le> maxRetry r \<and> maxRetry r \<le> int (Suc a)" using Suc.prems(3) by simp
    then show ?thesis using nd fs e wt w True by (auto simp: Let_def)
  next
    case False
    then have lt: "Suc a < m" using Suc.prems(5) by simp
    then have nx: "\<not> (0 \<le> maxRetry r \<and> maxRetry r \<le> int (Suc a))"
      using Suc.prems(3) by auto
    have step: "retry_loop (Suc fuel) unrep r ctx f a errs s ws =
                retry_loop fuel unrep r' ctx f (Suc a) ?errs' s' (ws @ [w])"
      using nd fs e wt w nx by (auto simp: Let_def)
    have "maxRetry r' = int m" using Suc.prems(3) mr by simp
    moreover have "m - Suc a \<le> fuel" using Suc.prems(6) lt by simp
    ultimately obtain fin where
      fin: "retry_loop fuel unrep r' ctx f (Suc a) ?errs' s' (ws @ [w]) = Some (Returns fin)"
        "result fin \<noteq> None" "invocations fin = Suc m"
        "length (tickers fin) = length (ws @ [w]) + (m - Suc a)"
      using Suc.IH[OF ok Suc.prems(2) _ Suc.prems(4) lt, of ?errs' s' "ws @ [w]"] by blast
    from fin(4) lt have "length (tickers fin) = length ws + (m - a)" by simp
    with fin(1,2,3) show ?thesis unfolding step by blast
  qed
qed

lemma always_fails_boom: "always_fails always_boom"
  by (simp add: always_fails_def always_boom_def)

lemma Do_enters_loop:
  assumes "always_fails f" "maxRetry r \<noteq> 0"
  shows "Do fuel unrep r ctx f s =
           (case waitTime unrep r 0 of
              (wait, r') \<Rightarrow>
                if wait \<le> 0 then Some Panics
                else retry_loop fuel unrep r' ctx f 0 None (snd (f s)) [wait])"
proof -
  have "fst (f s) \<noteq> None" using assms(1) by (simp add: always_fails_def)
  with assms(2) show ?thesis by (auto simp: Do_def case_prod_beta)
qed

lemma waits_ok_test: "waits_ok (test_retry n) k"
  by (simp add: waits_ok_def)

lemma waits_ok_steady: "k \<le> 1022 \<Longrightarrow> waits_ok (NewRetry steady_source n seed) k"
  by (simp add: waits_ok_def NewRetry_def steady_source_def steady_def)

text \<open>
  Retrying without a bound, as long as the waits are positive intervals: with a
  negative \<open>maxRetry\<close> and an operation that always fails, \<open>Do\<close> returns in the round
  in which the context is done, with the context's error.
\<close>

theorem Do_until_cancelled:
  assumes "waits_ok r k" "always_fails f" "maxRetry r < 0"
    and "\<forall>i<k. \<not> ctx_done ctx i" "ctx_done ctx k" "k < fuel"
  shows "\<exists>fin. Do fuel unrep r ctx f s = Some (Returns fin) \<and>
               result fin = Some (ctx_err ctx) \<and> invocations fin = Suc k"
proof -
  obtain w r' where wt: "waitTime unrep r 0 = (w, r')" by (cases "waitTime unrep r 0")
  from waitTime_positive[OF assms(1) _ wt]
  have w: "0 < w" and ok: "waits_ok r' k" and mr: "maxRetry r' = maxRetry r" by auto
  have "maxRetry r' < 0 \<or> int k < maxRetry r'" using assms(3) mr by simp
  moreover have nz: "maxRetry r \<noteq> 0" using assms(3) by simp
  ultimately show ?thesis
    using retry_loop_cancelled[OF ok assms(2) _ assms(4,5), of 0 fuel unrep None "snd (f s)" "[w]"] assms(6)
    unfolding Do_enters_loop[OF assms(2) nz, of fuel unrep ctx s] using wt w by simp
qed

theorem Do_until_cancelled_witness:
  "\<exists>fin. Do 10 amd64 (NewRetry steady_source (- 1) 7) (done_from 3) always_boom 0 = Some (Returns fin) \<and>
         result fin = Some (Err ''context canceled'') \<and> invocations fin = 4"
proof -
  have 1: "waits_ok (NewRetry steady_source (- 1) 7) 3" by (rule waits_ok_steady) simp
  have 2: "maxRetry (NewRetry steady_source (- 1) 7) < 0" by (simp add: NewRetry_def)
  have 3: "\<forall>i<3. \<not> ctx_done (done_from 3) i" by (simp add: done_from_def)
  have 4: "ctx_done (done_from 3) 3" by (simp add: done_from_def)
  have 5: "(3::nat) < 10" by simp
  from Do_until_cancelled[OF 1 always_fails_boom 2 3 4 5, of amd64 0]
  show ?thesis by (simp add: done_from_def)
qed

text \<open>
  And until then it does not return: after any number of rounds in which the context
  was not done it is still retrying.
\<close>

theorem Do_keeps_retrying:
  assumes "waits_ok r fuel" "always_fails f" "maxRetry r < 0"
    and "\<forall>i<fuel. \<not> ctx_done ctx i"
  shows "Do fuel unrep r ctx f s = None"
proof -
  obtain w r' where wt: "waitTime unrep r 0 = (w, r')" by (cases "waitTime unrep r 0")
  from waitTime_positive[OF assms(1) _ wt]
  have w: "0 < w" and ok: "waits_ok r' fuel" and mr: "maxRetry r' = maxRetry r" by auto
  have "maxRetry r' < 0 \<or> int (0 + fuel) < maxRetry r'" using assms(3) mr by simp
  moreover have nz: "maxRetry r \<noteq> 0" using assms(3) by simp
  ultimately show ?thesis
    using retry_loop_running[of r' 0 fuel f ctx unrep None "snd (f s)" "[w]"] ok assms(2,4)
    unfolding Do_enters_loop[OF assms(2) nz, of fuel unrep ctx s] using wt w by simp
qed

theorem Do_keeps_retrying_witness:
  "Do 100000 amd64 (test_retry (- 1)) never_done always_boom 0 = None \<and>
   Do 1000 amd64 (NewRetry steady_source (- 1) 7) never_done always_boom 0 = None"
proof -
  have 1: "waits_ok (test_retry (- 1)) 100000" by (rule waits_ok_test)
  have 2: "maxRetry (test_retry (- 1)) < 0" by simp
  have 3: "\<forall>i<100000. \<not> ctx_done never_done i" by (simp add: never_done_def)
  have p1: "waits_ok (NewRetry steady_source (- 1) 7) 1000" by (rule waits_ok_steady) simp
  have p2: "maxRetry (NewRetry steady_source (- 1) 7) < 0" by (simp add: NewRetry_def)
  have p3: "\<forall>i<1000. \<not> ctx_done never_done i" by (simp add: never_done_def)
  from Do_keeps_retrying[OF 1 always_fails_boom 2 3, of amd64 0]
       Do_keeps_retrying[OF p1 always_fails_boom p2 p3, of amd64 0]
  show ?thesis by blast
qed

text \<open>
  Retrying with a bound: with \<open>maxRetry = m\<close>, at least 1, an operation that always
  fails and a context that is not done, \<open>Do\<close> returns the accumulated error after
  exactly \<open>m\<close> retries, that is \<open>m + 1\<close> invocations.
\<close>

theorem Do_exhausts:
  assumes "waits_ok r m" "always_fails f" "maxRetry r = int m" "1 \<le> m"
    and "\<forall>i<m. \<not> ctx_done ctx i" "m \<le> fuel"
  shows "\<exists>fin E. Do fuel unrep r ctx f s = Some (Returns fin) \<and>
               result fin = Some E \<and> invocations fin = Suc m \<and>
               length (tickers fin) = Suc m"
proof -
  obtain w r' where wt: "waitTime unrep r 0 = (w, r')" by (cases "waitTime unrep r 0")
  from waitTime_positive[OF assms(1) _ wt]
  have w: "0 < w" and ok: "waits_ok r' m" and mr: "maxRetry r' = maxRetry r" by auto
  have mr': "maxRetry r' = int m" using assms(3) mr by simp
  have m0: "0 < m" using assms(4) by simp
  from retry_loop_exhausts[OF ok assms(2) mr' assms(5) m0, of fuel unrep None "snd (f s)" "[w]"] assms(6)
  obtain fin where "retry_loop fuel unrep r' ctx f 0 None (snd (f s)) [w] = Some (Returns fin)"
    "result fin \<noteq> None" "invocations fin = Suc m" "length (tickers fin) = Suc m"
    by auto
  moreover have "maxRetry r \<noteq> 0" using assms(3,4) by simp
  ultimately show ?thesis
    unfolding Do_enters_loop[OF assms(2) \<open>maxRetry r \<noteq> 0\<close>, of fuel unrep ctx s] using wt w by auto
qed

theorem Do_exhausts_witness:
  "\<exists>fin E. Do 8 amd64 (NewRetry steady_source 8 7) never_done always_boom 0 = Some (Returns fin) \<and>
           result fin = Some E \<and> invocations fin = 9 \<and> length (tickers fin) = 9"
proof -
  have 1: "waits_ok (NewRetry steady_source 8 7) 8" by (rule waits_ok_steady) simp
  have 2: "maxRetry (NewRetry steady_source 8 7) = int 8" by (simp add: NewRetry_def)
  have 3: "(1::nat) \<le> 8" by simp
  have 4: "\<forall>i<8. \<not> ctx_done never_done i" by (simp add: never_done_def)
  have 5: "(8::nat) \<le> 8" by simp
  from Do_exhausts[OF 1 always_fails_boom 2 3 4 5, of amd64 0]
  show ?thesis by simp
qed

lemma retry_loop_panics:
  "\<not> testMode r \<Longrightarrow> maxRetry r < 0 \<or> 1024 \<le> maxRetry r \<Longrightarrow> sint (unrep NaN) \<le> 0 \<Longrightarrow>
   always_fails f \<Longrightarrow> \<forall>i<1024. \<not> ctx_done ctx i \<Longrightarrow> a < 1024 \<Longrightarrow> 1024 - a \<le> fuel \<Longrightarrow>
   retry_loop fuel unrep r ctx f a errs s ws = Some Panics"
proof (induction fuel arbitrary: r a errs s ws)
  case 0
  then show ?case by simp
next
  case (Suc fuel)
  have nd: "\<not> ctx_done ctx a" using Suc.prems(5,6) by simp
  obtain eo s' where fs: "f s = (eo, s')" by (cases "f s")
  with Suc.prems(4) obtain e where e: "eo = Some e"
    by (cases eo) (auto simp: always_fails_def dest: spec[of _ s])
  obtain w r' where wt: "waitTime unrep r (Suc a) = (w, r')"
    by (cases "waitTime unrep r (Suc a)")
  have ww: "w = fst (WaitTime unrep (Suc a) (random r))"
    using wt Suc.prems(1) by (auto simp: waitTime_def split: prod.splits)
  have r': "\<not> testMode r'" "maxRetry r' = maxRetry r"
    using waitTime_maxRetry[OF wt] Suc.prems(1) by simp_all
  show ?case
  proof (cases "w \<le> 0")
    case True
    then show ?thesis using nd fs e wt by (simp add: Let_def)
  next
    case False
    have lt: "Suc a < 1024"
    proof (rule ccontr)
      assume "\<not> Suc a < 1024"
      then have "1024 \<le> Suc a" by simp
      from WaitTime_NaN[OF this, of unrep "random r"] ww have "w = sint (unrep NaN)" by simp
      with Suc.prems(3) False show False by simp
    qed
    then have nx: "\<not> (0 \<le> maxRetry r \<and> maxRetry r \<le> int (Suc a))"
      using Suc.prems(2) by auto
    let ?errs' = "Some (case errs of None \<Rightarrow> attempt_failed (Suc a) e
                     | Some x \<Rightarrow> Wrap x (Error (attempt_failed (Suc a) e)))"
    have step: "retry_loop (Suc fuel) unrep r ctx f a errs s ws =
                retry_loop fuel unrep r' ctx f (Suc a) ?errs' s' (ws @ [w])"
      using nd fs e wt False nx by (auto simp: Let_def)
    have "maxRetry r' < 0 \<or> 1024 \<le> maxRetry r'" using Suc.prems(2) r' by simp
    moreover have "1024 - Suc a \<le> fuel" using Suc.prems(7) by simp
    ultimately show ?thesis
      unfolding step
      using Suc.IH[where r = r' and a = "Suc a", OF r'(1) _ Suc.prems(3,4,5) lt] by blast
  qed
qed

lemma Do_panics:
  assumes "\<not> testMode r" "maxRetry r < 0 \<or> 1024 \<le> maxRetry r" "sint (unrep NaN) \<le> 0"
    and "always_fails f" "\<forall>i<1024. \<not> ctx_done ctx i" "1024 \<le> fuel"
  shows "Do fuel unrep r ctx f s = Some Panics"
proof -
  obtain w r' where wt: "waitTime unrep r 0 = (w, r')" by (cases "waitTime unrep r 0")
  have r': "\<not> testMode r'" "maxRetry r' = maxRetry r"
    using waitTime_maxRetry[OF wt] assms(1) by simp_all
  have nz: "maxRetry r \<noteq> 0" using assms(2) by auto
  show ?thesis
  proof (cases "w \<le> 0")
    case True
    then show ?thesis unfolding Do_enters_loop[OF assms(4) nz, of fuel unrep ctx s] using wt by simp
  next
    case False
    have "maxRetry r' < 0 \<or> 1024 \<le> maxRetry r'" using assms(2) r' by simp
    from retry_loop_panics[where unrep = unrep and r = r' and a = 0 and fuel = fuel and errs = None
           and s = "snd (f s)" and ws = "[w]", OF r'(1) this assms(3,4,5)] assms(6)
    show ?thesis unfolding Do_enters_loop[OF assms(4) nz, of fuel unrep ctx s] using wt False by simp
  qed
qed

text \<open>
  C5 (how the loop ends).  The claim: with \<open>maxRetry = -1\<close> and an operation that
  always fails, \<open>Do\<close> keeps retrying and returns exactly when the context is done.
  The handler that \<open>NewRetry\<close> builds does not keep retrying: when the context stays
  open, the wait computed for attempt 1024 is the conversion of a NaN (C3), on amd64 a
  negative number, and \<open>time.NewTicker\<close> panics on it.  Whatever the random source,
  1024 rounds of the loop end in that panic.
\<close>

theorem Do_unbounded_panics:
  "Do 1024 amd64 (NewRetry source (- 1) seed) never_done always_boom 0 = Some Panics"
  by (rule Do_panics) (simp_all add: NewRetry_def sint_amd64 always_fails_boom never_done_def)

section \<open>The Consul client\<close>

lemma Contains_sublist: "Contains s substr = sublist substr s"
  by (induction s) (auto simp: sublist_Cons_right)

lemma parseSKU_cases:
  "parseSKU metadataOf self = ([], False) \<or>
   parseSKU metadataOf self = (''ent'', True) \<or>
   parseSKU metadataOf self = (''oss'', True)"
  by (auto simp: parseSKU_def ConsulEnterpriseSKU_def ConsulOSSSKU_def
           split: prod.splits option.splits elim: assert_string.elims)


lemma index2_self_with: "index2 (self_with x) ''Config'' ''Version'' = x"
  by (simp add: index2_def self_with_def)


text \<open>
  C10 (\<open>parseSKU\<close> never fails).  \<open>parseSKU\<close> has three possible results, and no
  way to panic: indexing a map at a missing key and the comma-ok type assertion yield
  zero values.  It returns the empty string and \<open>false\<close> when the \<open>Config\<close> key is
  missing, when the \<open>Version\<close> key is missing, when the version is not a string, and
  when \<open>version.NewVersion\<close> rejects the string.
\<close>

theorem parseSKU_total:
  "(parseSKU metadataOf self = ([], False) \<or>
    parseSKU metadataOf self = (''ent'', True) \<or>
    parseSKU metadataOf self = (''oss'', True)) \<and>
   (self ''Config'' = None \<longrightarrow> parseSKU metadataOf self = ([], False)) \<and>
   (self ''Config'' = Some cfg \<and> cfg ''Version'' = None \<longrightarrow>
      parseSKU metadataOf self = ([], False)) \<and>
   ((\<forall>s. index2 self ''Config'' ''Version'' \<noteq> IString s) \<longrightarrow>
      parseSKU metadataOf self = ([], False)) \<and>
   (index2 self ''Config'' ''Version'' = IString v \<and> metadataOf v = None \<longrightarrow>
      parseSKU metadataOf self = ([], False))"
proof (intro conjI impI)
  show "parseSKU metadataOf self = ([], False) \<or>
    parseSKU metadataOf self = (''ent'', True) \<or>
    parseSKU metadataOf self = (''oss'', True)" by (rule parseSKU_cases)
next
  assume "self ''Config'' = None"
  then show "parseSKU metadataOf self = ([], False)" by (simp add: parseSKU_def index2_def)
next
  assume "self ''Config'' = Some cfg \<and> cfg ''Version'' = None"
  then show "parseSKU metadataOf self = ([], False)" by (simp add: parseSKU_def index2_def)
next
  assume "\<forall>s. index2 self ''Config'' ''Version'' \<noteq> IString s"
  then show "parseSKU metadataOf self = ([], False)"
    by (cases "index2 self ''Config'' ''Version''") (simp_all add: parseSKU_def)
next
  assume "index2 self ''Config'' ''Version'' = IString v \<and> metadataOf v = None"
  then show "parseSKU metadataOf self = ([], False)" by (simp add: parseSKU_def)
qed

theorem parseSKU_total_witness:
  "parseSKU test_versions Map.empty = ([], False) \<and>
   parseSKU test_versions [''NoConfig'' \<mapsto> [''Version'' \<mapsto> IString ''***'']] = ([], False) \<and>
   parseSKU test_versions [''Config'' \<mapsto> Map.empty] = ([], False) \<and>
   parseSKU test_versions (self_with (INumber 195)) = ([], False) \<and>
   parseSKU test_versions (self_with INil) = ([], False) \<and>
   parseSKU test_versions (self_with (IString ''***'')) = ([], False)"
proof -
  note th = parseSKU_total
  have 1: "(Map.empty :: Self) ''Config'' = None" by simp
  have 2: "[''NoConfig'' \<mapsto> [''Version'' \<mapsto> IString ''***'']] ''Config'' = None" by simp
  have 3: "[''Config'' \<mapsto> Map.empty] ''Config'' = Some Map.empty \<and> (Map.empty :: string \<rightharpoonup> iface) ''Version'' = None"
    by simp
  have 4: "\<forall>s. index2 (self_with (INumber 195)) ''Config'' ''Version'' \<noteq> IString s"
    by (simp add: index2_self_with)
  have 5: "\<forall>s. index2 (self_with INil) ''Config'' ''Version'' \<noteq> IString s"
    by (simp add: index2_self_with)
  have 6: "index2 (self_with (IString ''***'')) ''Config'' ''Version'' = IString ''***'' \<and>
           test_versions ''***'' = None"
    by (simp add: index2_self_with test_versions_def)
  from th [where self = Map.empty and metadataOf = test_versions,
            THEN conjunct2, THEN conjunct1, THEN mp, OF 1]
       th [where self = "[''NoConfig'' \<mapsto> [''Version'' \<mapsto> IString ''***'']]"
             and metadataOf = test_versions,
            THEN conjunct2, THEN conjunct1, THEN mp, OF 2]
       th [where self = "[''Config'' \<mapsto> Map.empty]" and metadataOf = test_versions
             and cfg = Map.empty,
            THEN conjunct2, THEN conjunct2, THEN conjunct1, THEN mp, OF 3]
       th [where self = "self_with (INumber 195)" and metadataOf = test_versions,
            THEN conjunct2, THEN conjunct2, THEN conjunct2, THEN conjunct1, THEN mp, OF 4]
       th [where self = "self_with INil" and metadataOf = test_versions,
            THEN conjunct2, THEN conjunct2, THEN conjunct2, THEN conjunct1, THEN mp, OF 5]
       th [where self = "self_with (IString ''***'')" and metadataOf = test_versions
             and v = "''***''",
            THEN conjunct2, THEN conjunct2, THEN conjunct2, THEN conjunct2, THEN mp, OF 6]
  show ?thesis by blast
qed

lemma license_op_failed: "fst (license_op api v) \<noteq> None \<Longrightarrow> license (snd (license_op api v)) = []"
  by (auto simp: license_op_def split: prod.splits if_splits)

text \<open>
  C8 (no license beside an error).  Whenever \<open>GetLicense\<close> returns an error that is
  not nil, be it the operation's own, the accumulated one after the retries or the
  context's, the license it returns is the empty string; so a license that is not
  empty comes with a nil error only.
\<close>

theorem GetLicense_error_empty:
  "GetLicense fuel unrep c ctx q = Some (Returns ((lic, eo), h)) \<Longrightarrow> eo \<noteq> None \<Longrightarrow> lic = []"
proof -
  assume g: "GetLicense fuel unrep c ctx q = Some (Returns ((lic, eo), h))" and e: "eo \<noteq> None"
  let ?f = "license_op (LicenseGetSigned c q)"
  let ?s = "\<lparr>license = [], license_err = None, license_requests = 0\<rparr>"
  from g obtain fin where d: "Do fuel unrep (retry c) ctx ?f ?s = Some (Returns fin)"
    and lic: "lic = license (user fin)" and eo: "eo = result fin"
    by (auto simp: GetLicense_def split: option.splits outcome.splits)
  from Do_last[OF d] have pos: "0 < invocations fin"
    and u: "user fin = state_before ?f ?s (invocations fin)"
    and r: "returned ?f ?s (invocations fin - 1) \<noteq> None"
    using e eo by auto
  obtain n where n: "invocations fin = Suc n" using pos by (cases "invocations fin") auto
  have "user fin = snd (?f (state_before ?f ?s n))" unfolding u n by (rule state_before_Suc)
  moreover have "fst (?f (state_before ?f ?s n)) \<noteq> None" using r n by (simp add: returned_def)
  ultimately show "lic = []" using lic license_op_failed by metis
qed

lemma failing_license:
  "GetLicense 3 amd64 failing_client never_done () =
     Some (Returns
       (([], Some (Err (''retry attempt #1 failed '' @ [CHR 0x27] @ ''unavailable'' @ [CHR 0x27]))),
        test_retry 1))"
  by (simp add: GetLicense_def failing_client_def license_op_def run_simps never_done_def)

lemma recovering_license:
  "GetLicense 3 amd64 (recovering_client INil) never_done () =
     Some (Returns ((''signed'', None), test_retry 1))"
  by (simp add: GetLicense_def recovering_client_def license_op_def run_simps never_done_def)

theorem GetLicense_error_empty_witness:
  "GetLicense 3 amd64 failing_client never_done () =
     Some (Returns
       (([], Some (Err (''retry attempt #1 failed '' @ [CHR 0x27] @ ''unavailable'' @ [CHR 0x27]))),
        test_retry 1)) \<and>
   GetLicense 3 amd64 (recovering_client INil) never_done () =
     Some (Returns ((''signed'', None), test_retry 1))"
  using GetLicense_error_empty [OF failing_license] failing_license recovering_license
  by simp











section \<open>The controller\<close>

text \<open>
  C1 (a template that did not render).  In a call of \<open>checkApply\<close> in which
  \<open>RenderTemplate\<close> returns \<open>(false, nil)\<close> (it is called for an enabled task only):
  in once-mode for a scheduled task the call returns \<open>(false, nil)\<close> and records no
  event; in every other case it records exactly one event, with \<open>success = true\<close>,
  and returns \<open>(false, nil)\<close>.  Either way \<open>ApplyTask\<close> is not among the driver calls.
\<close>

theorem checkApply_not_rendered:
  "enabled (task d) \<Longrightarrow> RenderTemplate d = (False, None) \<Longrightarrow>
   checkApply fuel unrep rt start stop ctx d retry' once =
     Some (Returns
       (if once \<and> is_scheduled (condition (task d)) then
          \<lparr>rendered = False, err = None, events = [],
           calls = [CallTask, CallRenderTemplate]\<rparr>
        else
          \<lparr>rendered = False, err = None,
           events = [\<lparr>task_name = name (task d), start_time = start, end_time = stop,
                      success = True, event_error = None\<rparr>],
           calls = [CallTask, CallRenderTemplate]\<rparr>))"
  by (simp add: checkApply_def Let_def)

theorem checkApply_not_rendered_witness:
  "enabled (task (unrendered (Scheduled ''*/3 * * * * *''))) \<and>
   RenderTemplate (unrendered (Scheduled ''*/3 * * * * *'')) = (False, None) \<and>
   checkApply 0 amd64 (test_retry 8) 10 20 never_done (unrendered (Scheduled ''*/3 * * * * *'')) False True =
     Some (Returns \<lparr>rendered = False, err = None, events = [],
                    calls = [CallTask, CallRenderTemplate]\<rparr>) \<and>
   checkApply 0 amd64 (test_retry 8) 10 20 never_done (unrendered (Scheduled ''*/3 * * * * *'')) False False =
     Some (Returns
       \<lparr>rendered = False, err = None,
        events = [\<lparr>task_name = ''scheduled_task'', start_time = 10, end_time = 20,
                   success = True, event_error = None\<rparr>],
        calls = [CallTask, CallRenderTemplate]\<rparr>) \<and>
   checkApply 0 amd64 (test_retry 8) 10 20 never_done (unrendered (Dynamic [''tmpl_a''])) True True =
     Some (Returns
       \<lparr>rendered = False, err = None,
        events = [\<lparr>task_name = ''scheduled_task'', start_time = 10, end_time = 20,
                   success = True, event_error = None\<rparr>],
        calls = [CallTask, CallRenderTemplate]\<rparr>)"
proof -
  have e: "enabled (task (unrendered c))" and r: "RenderTemplate (unrendered c) = (False, None)" for c
    by (simp_all add: unrendered_def)
  from checkApply_not_rendered
         [where d = "unrendered (Scheduled ''*/3 * * * * *'')" and fuel = 0 and unrep = amd64
            and rt = "test_retry 8" and start = 10 and stop = 20 and ctx = never_done
            and retry' = False and once = True, OF e r]
       checkApply_not_rendered
         [where d = "unrendered (Scheduled ''*/3 * * * * *'')" and fuel = 0 and unrep = amd64
            and rt = "test_retry 8" and start = 10 and stop = 20 and ctx = never_done
            and retry' = False and once = False, OF e r]
       checkApply_not_rendered
         [where d = "unrendered (Dynamic [''tmpl_a''])" and fuel = 0 and unrep = amd64
            and rt = "test_retry 8" and start = 10 and stop = 20 and ctx = never_done
            and retry' = True and once = True, OF e r]
       e r
  show ?thesis by (simp add: unrendered_def)
qed

end
